theory Spec2Isabelle
  imports Complex_Main "HOL-Library.Product_Lexorder"
begin

section \<open>The match engine of \<^verbatim>\<open>src/backend/game_logic.py\<close>\<close>

text \<open>
  Conventions of the embedding.
  \<^item> Python \<^verbatim>\<open>int\<close> is \<open>int\<close>; Python \<^verbatim>\<open>float\<close> (confidences, timestamps,
    coordinates) is idealised as \<open>real\<close>: a decimal literal denotes its decimal value,
    products are exact, NaN and the infinities do not occur.
  \<^item> \<^verbatim>\<open>self.players\<close> is a dict keyed by \<^verbatim>\<open>Player.id\<close> (\<^verbatim>\<open>add_player\<close>, its only writer,
    stores each player under the player's own id). It is modelled as the list of its values
    in insertion order, which is the order Python iterates a dict in. A player object that
    the code mutates through a reference is updated in the list under its id.
  \<^item> An exception is a value \<open>Some e\<close> beside the state the exception leaves behind, since
    the object keeps every mutation made before the raise.
  \<^item> Every reading of the event-loop clock is a parameter of the function that reads it.
\<close>

datatype GameState = WAITING | PLAYING | PAUSED | FINISHED

datatype MoveType = JAB | CROSS | HOOK | UPPERCUT | BLOCK | DODGE | GUARD

record Player =
  ident :: string
  name :: string
  health :: int
  score :: int
  last_move :: "string option"
  last_move_time :: "real option"
  is_blocking :: bool
  is_dodging :: bool

record GameAction =
  player_id :: string
  move_type :: string
  confidence :: real
  timestamp :: real

text \<open>One element of the \<^verbatim>\<open>actions\<close> list: a dict in which each of the four keys may be absent.\<close>

record ActionData =
  ad_player_id :: "string option"
  ad_move :: "string option"
  ad_confidence :: "real option"
  ad_timestamp :: "real option"

record BoxingGame =
  state :: GameState
  players :: "Player list"
  round_time :: int
  current_round :: int
  max_rounds :: int
  game_start_time :: "real option"
  last_update_time :: "real option"

text \<open>The two \<^verbatim>\<open>ValueError\<close>s the engine raises: from \<^verbatim>\<open>start_game\<close>, and from the enum
  constructor \<^verbatim>\<open>MoveType(s)\<close> on a string that is the value of no member.\<close>

datatype error = NeedPlayers | InvalidMoveType string

definition init_game :: BoxingGame where
  "init_game = \<lparr>state = WAITING, players = [], round_time = 180, current_round = 1,
     max_rounds = 3, game_start_time = None, last_update_time = None\<rparr>"

definition move_damage :: "MoveType \<Rightarrow> int" where
  "move_damage m = (case m of JAB \<Rightarrow> 10 | CROSS \<Rightarrow> 15 | HOOK \<Rightarrow> 20 | UPPERCUT \<Rightarrow> 25
     | BLOCK \<Rightarrow> 0 | DODGE \<Rightarrow> 0 | GUARD \<Rightarrow> 0)"

definition move_effectiveness :: "MoveType \<Rightarrow> real" where
  "move_effectiveness m = (case m of JAB \<Rightarrow> 3/10 | CROSS \<Rightarrow> 5/10 | HOOK \<Rightarrow> 7/10
     | UPPERCUT \<Rightarrow> 8/10 | BLOCK \<Rightarrow> 0 | DODGE \<Rightarrow> 0 | GUARD \<Rightarrow> 0)"

text \<open>The \<^verbatim>\<open>.value\<close> of each member of the enum \<^verbatim>\<open>MoveType\<close>.\<close>

definition move_value :: "MoveType \<Rightarrow> string" where
  "move_value m = (case m of JAB \<Rightarrow> ''jab'' | CROSS \<Rightarrow> ''cross'' | HOOK \<Rightarrow> ''hook''
     | UPPERCUT \<Rightarrow> ''uppercut'' | BLOCK \<Rightarrow> ''block'' | DODGE \<Rightarrow> ''dodge'' | GUARD \<Rightarrow> ''guard'')"

text \<open>\<^verbatim>\<open>MoveType(s)\<close>: lookup of an enum member by value; \<open>None\<close> stands for the \<^verbatim>\<open>ValueError\<close>.\<close>

definition MoveType_of :: "string \<Rightarrow> MoveType option" where
  "MoveType_of s =
     (if s = ''jab'' then Some JAB else if s = ''cross'' then Some CROSS
      else if s = ''hook'' then Some HOOK else if s = ''uppercut'' then Some UPPERCUT
      else if s = ''block'' then Some BLOCK else if s = ''dodge'' then Some DODGE
      else if s = ''guard'' then Some GUARD else None)"

text \<open>Python's \<^verbatim>\<open>int(x)\<close> on a float: truncation towards zero.\<close>

definition py_int :: "real \<Rightarrow> int" where
  "py_int x = (if 0 \<le> x then \<lfloor>x\<rfloor> else \<lceil>x\<rceil>)"

subsection \<open>The players dict\<close>

definition lookup :: "string \<Rightarrow> Player list \<Rightarrow> Player option" where
  "lookup k ps = find (\<lambda>p. ident p = k) ps"

fun update_player :: "string \<Rightarrow> (Player \<Rightarrow> Player) \<Rightarrow> Player list \<Rightarrow> Player list" where
  "update_player k f [] = []"
| "update_player k f (p # ps) = (if ident p = k then f p # ps else p # update_player k f ps)"

definition new_player :: "string \<Rightarrow> string \<Rightarrow> Player" where
  "new_player k nm = \<lparr>ident = k, name = nm, health = 100, score = 0, last_move = None,
     last_move_time = None, is_blocking = False, is_dodging = False\<rparr>"

text \<open>\<^verbatim>\<open>self.players[player_id] = player\<close>: a key that is present keeps its place in the
  iteration order and gets the new value; a new key goes to the end.\<close>

definition add_player :: "string \<Rightarrow> string \<Rightarrow> BoxingGame \<Rightarrow> BoxingGame \<times> Player" where
  "add_player k nm g =
     (let player = new_player k nm in
      (g\<lparr>players := (case lookup k (players g) of
                        None \<Rightarrow> players g @ [player]
                      | Some _ \<Rightarrow> update_player k (\<lambda>_. player) (players g))\<rparr>, player))"

definition remove_player :: "string \<Rightarrow> BoxingGame \<Rightarrow> BoxingGame \<times> bool" where
  "remove_player k g =
     (case lookup k (players g) of
        Some _ \<Rightarrow> (g\<lparr>players := filter (\<lambda>p. ident p \<noteq> k) (players g)\<rparr>, True)
      | None \<Rightarrow> (g, False))"

subsection \<open>Match control\<close>

definition start_game :: "real \<Rightarrow> BoxingGame \<Rightarrow> BoxingGame \<times> error option" where
  "start_game now g =
     (if length (players g) < 1 then (g, Some NeedPlayers)
      else (g\<lparr>state := PLAYING, game_start_time := Some now, current_round := 1,
               players := map (\<lambda>p. p\<lparr>health := 100, score := 0, last_move := None,
                                      is_blocking := False, is_dodging := False\<rparr>) (players g)\<rparr>,
            None))"

definition pause_game :: "BoxingGame \<Rightarrow> BoxingGame" where
  "pause_game g = g\<lparr>state := PAUSED\<rparr>"

definition resume_game :: "BoxingGame \<Rightarrow> BoxingGame" where
  "resume_game g = (if state g = PAUSED then g\<lparr>state := PLAYING\<rparr> else g)"

definition end_game :: "BoxingGame \<Rightarrow> BoxingGame" where
  "end_game g = g\<lparr>state := FINISHED\<rparr>"

definition reset :: "BoxingGame \<Rightarrow> BoxingGame" where
  "reset g = g\<lparr>state := WAITING, players := [], current_round := 1,
                game_start_time := None, last_update_time := None\<rparr>"

subsection \<open>Resolving one action\<close>

text \<open>\<^verbatim>\<open>_get_opponent\<close>: the first key other than the actor's; the final
  \<^verbatim>\<open>if opponent_id\<close> is a truthiness test, so an opponent whose id is the empty string
  is not returned.\<close>

definition get_opponent :: "BoxingGame \<Rightarrow> string \<Rightarrow> Player option" where
  "get_opponent g k =
     (if length (players g) = 1 then None
      else (case find (\<lambda>p. ident p \<noteq> k) (players g) of
              None \<Rightarrow> None
            | Some q \<Rightarrow> if ident q = [] then None else lookup (ident q) (players g)))"

definition calculate_damage :: "MoveType \<Rightarrow> real \<Rightarrow> Player \<Rightarrow> int" where
  "calculate_damage mt conf opponent =
     (let base_damage = move_damage mt;
          damage = py_int (of_int base_damage * conf);
          damage = (if is_blocking opponent
                    then py_int (of_int damage * move_effectiveness mt) else damage);
          damage = (if is_dodging opponent then 0 else damage)
      in max 0 damage)"

definition apply_damage :: "string \<Rightarrow> int \<Rightarrow> BoxingGame \<Rightarrow> BoxingGame" where
  "apply_damage k damage g =
     g\<lparr>players := update_player k (\<lambda>p. p\<lparr>health := max 0 (health p - damage)\<rparr>) (players g)\<rparr>"

definition process_single_action :: "GameAction \<Rightarrow> BoxingGame \<Rightarrow> BoxingGame \<times> error option" where
  "process_single_action action g =
     (case lookup (player_id action) (players g) of
        None \<Rightarrow> (g, None)
      | Some _ \<Rightarrow>
         (case MoveType_of (move_type action) of
            None \<Rightarrow> (g, Some (InvalidMoveType (move_type action)))
          | Some mt \<Rightarrow>
             (let g1 = g\<lparr>players := update_player (player_id action)
                          (\<lambda>p. p\<lparr>last_move := Some (move_type action),
                                  last_move_time := Some (timestamp action)\<rparr>) (players g)\<rparr>
              in if mt \<in> {BLOCK, DODGE, GUARD} then
                   (g1\<lparr>players := update_player (player_id action)
                          (\<lambda>p. if mt = BLOCK then p\<lparr>is_blocking := True, is_dodging := False\<rparr>
                                else if mt = DODGE then p\<lparr>is_dodging := True, is_blocking := False\<rparr>
                                else p\<lparr>is_blocking := False, is_dodging := False\<rparr>)
                          (players g1)\<rparr>, None)
                 else if mt \<in> {JAB, CROSS, HOOK, UPPERCUT} then
                   (case get_opponent g1 (player_id action) of
                      None \<Rightarrow> (g1, None)
                    | Some opponent \<Rightarrow>
                       (let damage = calculate_damage mt (confidence action) opponent;
                            g2 = apply_damage (ident opponent) damage g1
                        in if damage > 0
                           then (g2\<lparr>players := update_player (player_id action)
                                    (\<lambda>p. p\<lparr>score := score p + damage\<rparr>) (players g2)\<rparr>, None)
                           else (g2, None)))
                 else (g1, None))))"

subsection \<open>End-of-tick checks\<close>

definition handle_knockout :: "Player \<Rightarrow> BoxingGame \<Rightarrow> BoxingGame" where
  "handle_knockout knocked_out_player g =
     (let g1 = (case find (\<lambda>p. ident p \<noteq> ident knocked_out_player) (players g) of
                  None \<Rightarrow> g
                | Some winner \<Rightarrow>
                    g\<lparr>players := update_player (ident winner)
                         (\<lambda>p. p\<lparr>score := score p + 50\<rparr>) (players g)\<rparr>)
      in g1\<lparr>state := FINISHED\<rparr>)"

text \<open>\<^verbatim>\<open>list.sort(key=..., reverse=True)\<close> is a stable descending sort: CPython reverses
  the list, sorts it stably in ascending order and reverses it again. The key is the tuple
  \<^verbatim>\<open>(p.health, p.score)\<close>, compared lexicographically.\<close>

definition sort_reverse :: "('a \<Rightarrow> 'k::linorder) \<Rightarrow> 'a list \<Rightarrow> 'a list" where
  "sort_reverse f xs = rev (sort_key f (rev xs))"

definition handle_round_end :: "real \<Rightarrow> BoxingGame \<Rightarrow> BoxingGame" where
  "handle_round_end now g =
     (let players_list = players g;
          g1 = (if length players_list \<ge> 2 then
                  (case sort_reverse (\<lambda>p. (health p, score p)) players_list of
                     winner # _ \<Rightarrow> g\<lparr>players := update_player (ident winner)
                                        (\<lambda>p. p\<lparr>score := score p + 25\<rparr>) (players g)\<rparr>
                   | [] \<Rightarrow> g)
                else g);
          g2 = g1\<lparr>current_round := current_round g1 + 1\<rparr>
      in if current_round g2 > max_rounds g2 then g2\<lparr>state := FINISHED\<rparr>
         else g2\<lparr>game_start_time := Some now,
                 players := map (\<lambda>p. p\<lparr>health := 100, is_blocking := False, is_dodging := False\<rparr>)
                              (players g2)\<rparr>)"

text \<open>\<^verbatim>\<open>if self.game_start_time:\<close> is a truthiness test: it fails on \<^verbatim>\<open>None\<close> and on \<^verbatim>\<open>0.0\<close>.
  \<open>t_check\<close> is the clock read for the elapsed time, \<open>t_round\<close> the one read when the next
  round starts.\<close>

definition check_game_conditions :: "real \<Rightarrow> real \<Rightarrow> BoxingGame \<Rightarrow> BoxingGame" where
  "check_game_conditions t_check t_round g =
     (case find (\<lambda>p. health p \<le> 0) (players g) of
        Some player \<Rightarrow> handle_knockout player g
      | None \<Rightarrow>
         (case game_start_time g of
            None \<Rightarrow> g
          | Some start \<Rightarrow>
             if start = 0 then g
             else if t_check - start \<ge> of_int (round_time g) then handle_round_end t_round g
             else g))"

subsection \<open>Processing a batch\<close>

text \<open>The loop of \<^verbatim>\<open>process_actions\<close> over the batch; \<open>current_time\<close> is the default
  timestamp. An exception of \<^verbatim>\<open>_process_single_action\<close> ends the loop with the state
  reached so far.\<close>

fun process_action_list :: "real \<Rightarrow> ActionData list \<Rightarrow> BoxingGame \<Rightarrow> BoxingGame \<times> error option" where
  "process_action_list current_time [] g = (g, None)"
| "process_action_list current_time (action_data # rest) g =
     (case (ad_move action_data, ad_confidence action_data) of
        (Some m, Some c) \<Rightarrow>
          (case process_single_action
                  \<lparr>player_id = (case ad_player_id action_data of None \<Rightarrow> ''player1'' | Some k \<Rightarrow> k),
                   move_type = m, confidence = c,
                   timestamp = (case ad_timestamp action_data of None \<Rightarrow> current_time | Some t \<Rightarrow> t)\<rparr> g of
             (g', Some e) \<Rightarrow> (g', Some e)
           | (g', None) \<Rightarrow> process_action_list current_time rest g')
      | _ \<Rightarrow> process_action_list current_time rest g)"

text \<open>\<^verbatim>\<open>process_actions\<close>; the snapshot it returns is a projection of the state, so the
  model returns the state, and \<open>Some e\<close> when the call raised.\<close>

definition process_actions ::
  "real \<Rightarrow> real \<Rightarrow> real \<Rightarrow> ActionData list \<Rightarrow> BoxingGame \<Rightarrow> BoxingGame \<times> error option" where
  "process_actions current_time t_check t_round actions g =
     (if state g \<noteq> PLAYING then (g, None)
      else (case process_action_list current_time actions (g\<lparr>last_update_time := Some current_time\<rparr>) of
              (g1, Some e) \<Rightarrow> (g1, Some e)
            | (g1, None) \<Rightarrow> (check_game_conditions t_check t_round g1, None)))"

section \<open>Damage\<close>

text \<open>The damage rule in the words of the specification: floor of base damage times
  confidence; against a blocking opponent the floor of that times the move's block
  effectiveness; nothing against a dodging opponent; never negative.\<close>

definition spec_base_damage :: "MoveType \<Rightarrow> int" where
  "spec_base_damage m = (if m = JAB then 10 else if m = CROSS then 15
     else if m = HOOK then 20 else if m = UPPERCUT then 25 else 0)"

definition spec_effectiveness :: "MoveType \<Rightarrow> real" where
  "spec_effectiveness m = (if m = JAB then 0.3 else if m = CROSS then 0.5
     else if m = HOOK then 0.7 else if m = UPPERCUT then 0.8 else 0)"

definition spec_damage :: "MoveType \<Rightarrow> real \<Rightarrow> bool \<Rightarrow> bool \<Rightarrow> int" where
  "spec_damage m c blocking dodging =
     (let d0 = \<lfloor>of_int (spec_base_damage m) * c\<rfloor>;
          d1 = (if blocking then \<lfloor>of_int d0 * spec_effectiveness m\<rfloor> else d0)
      in if dodging then 0 else max 0 d1)"


section \<open>The two move classifiers\<close>

text \<open>
  A pose array is the \<^verbatim>\<open>numpy\<close> array of shape (33, 3): a list of 33 landmarks
  \<open>(x, y, confidence)\<close>. Both files carry their own copy of the keypoint table, of the seven
  detectors and of the dispatch table \<^verbatim>\<open>boxing_moves\<close> (a dict, iterated in insertion
  order); the copies of \<^verbatim>\<open>src/backend/pose_detection.py\<close> are prefixed \<open>be_\<close>, those of
  \<^verbatim>\<open>src/pose-detection/pose_detector.py\<close> are prefixed \<open>sa_\<close>. The keypoint indices are
  the same in both files. A detected move is the pair of its name and confidence; the
  timestamp, a clock reading, is left out.
\<close>

type_synonym landmark = "real \<times> real \<times> real"

type_synonym pose = "landmark list"

definition lm_x :: "landmark \<Rightarrow> real" where
  "lm_x l = fst l"

definition lm_y :: "landmark \<Rightarrow> real" where
  "lm_y l = fst (snd l)"

text \<open>\<^verbatim>\<open>np.linalg.norm(a[:2] - b[:2])\<close>\<close>

definition norm2 :: "landmark \<Rightarrow> landmark \<Rightarrow> real" where
  "norm2 a b = sqrt ((lm_x a - lm_x b)\<^sup>2 + (lm_y a - lm_y b)\<^sup>2)"

definition kp_left_shoulder :: nat where "kp_left_shoulder = 11"
definition kp_right_shoulder :: nat where "kp_right_shoulder = 12"
definition kp_left_elbow :: nat where "kp_left_elbow = 13"
definition kp_right_elbow :: nat where "kp_right_elbow = 14"
definition kp_left_wrist :: nat where "kp_left_wrist = 15"
definition kp_right_wrist :: nat where "kp_right_wrist = 16"
definition kp_left_hip :: nat where "kp_left_hip = 23"
definition kp_right_hip :: nat where "kp_right_hip = 24"

subsection \<open>Backend: \<^verbatim>\<open>src/backend/pose_detection.py\<close>\<close>

definition be_calculate_arm_extension :: "landmark \<Rightarrow> landmark \<Rightarrow> landmark \<Rightarrow> real" where
  "be_calculate_arm_extension wrist elbow shoulder =
     (let wrist_elbow_dist = norm2 wrist elbow;
          elbow_shoulder_dist = norm2 elbow shoulder;
          total_arm_length = wrist_elbow_dist + elbow_shoulder_dist;
          straight_dist = norm2 wrist shoulder
      in if total_arm_length > 0 then min (straight_dist / total_arm_length) 1 else 0)"

definition be_detect_jab :: "pose \<Rightarrow> real" where
  "be_detect_jab pose_data =
     (let left_wrist = pose_data ! kp_left_wrist;
          left_elbow = pose_data ! kp_left_elbow;
          left_shoulder = pose_data ! kp_left_shoulder;
          arm_extension = be_calculate_arm_extension left_wrist left_elbow left_shoulder;
          forward_position = (lm_x left_wrist > lm_x left_shoulder)
      in if arm_extension > 0.8 \<and> forward_position then min arm_extension 1 else 0)"

definition be_detect_cross :: "pose \<Rightarrow> real" where
  "be_detect_cross pose_data =
     (let right_wrist = pose_data ! kp_right_wrist;
          right_elbow = pose_data ! kp_right_elbow;
          right_shoulder = pose_data ! kp_right_shoulder;
          arm_extension = be_calculate_arm_extension right_wrist right_elbow right_shoulder;
          forward_position = (lm_x right_wrist > lm_x right_shoulder)
      in if arm_extension > 0.8 \<and> forward_position then min arm_extension 1 else 0)"

definition be_detect_hook :: "pose \<Rightarrow> real" where
  "be_detect_hook pose_data =
     (let left_wrist = pose_data ! kp_left_wrist;
          right_wrist = pose_data ! kp_right_wrist;
          left_shoulder = pose_data ! kp_left_shoulder;
          right_shoulder = pose_data ! kp_right_shoulder;
          left_hook = (lm_y left_wrist > lm_y left_shoulder \<and>
                       \<bar>lm_x left_wrist - lm_x left_shoulder\<bar> > 0.3);
          right_hook = (lm_y right_wrist > lm_y right_shoulder \<and>
                        \<bar>lm_x right_wrist - lm_x right_shoulder\<bar> > 0.3)
      in if left_hook \<or> right_hook then 0.8 else 0)"

definition be_detect_uppercut :: "pose \<Rightarrow> real" where
  "be_detect_uppercut pose_data =
     (let left_wrist = pose_data ! kp_left_wrist;
          right_wrist = pose_data ! kp_right_wrist;
          left_shoulder = pose_data ! kp_left_shoulder;
          right_shoulder = pose_data ! kp_right_shoulder;
          left_uppercut = (lm_y left_wrist < lm_y left_shoulder \<and>
                           lm_x left_wrist > lm_x left_shoulder - 0.2);
          right_uppercut = (lm_y right_wrist < lm_y right_shoulder \<and>
                            lm_x right_wrist > lm_x right_shoulder - 0.2)
      in if left_uppercut \<or> right_uppercut then 0.8 else 0)"

definition be_detect_block :: "pose \<Rightarrow> real" where
  "be_detect_block pose_data =
     (let left_wrist = pose_data ! kp_left_wrist;
          right_wrist = pose_data ! kp_right_wrist;
          left_shoulder = pose_data ! kp_left_shoulder;
          right_shoulder = pose_data ! kp_right_shoulder;
          left_block = (lm_y left_wrist < lm_y left_shoulder \<and>
                        \<bar>lm_x left_wrist - lm_x left_shoulder\<bar> < 0.3);
          right_block = (lm_y right_wrist < lm_y right_shoulder \<and>
                         \<bar>lm_x right_wrist - lm_x right_shoulder\<bar> < 0.3)
      in if left_block \<and> right_block then 0.9
         else if left_block \<or> right_block then 0.6 else 0)"

definition be_detect_dodge :: "pose \<Rightarrow> real" where
  "be_detect_dodge pose_data =
     (let left_hip = pose_data ! kp_left_hip;
          right_hip = pose_data ! kp_right_hip;
          left_shoulder = pose_data ! kp_left_shoulder;
          right_shoulder = pose_data ! kp_right_shoulder;
          shoulder_movement = \<bar>lm_x left_shoulder - lm_x right_shoulder\<bar>;
          hip_movement = \<bar>lm_x left_hip - lm_x right_hip\<bar>
      in if shoulder_movement > 0.4 \<or> hip_movement > 0.4 then 0.7 else 0)"

definition be_detect_guard :: "pose \<Rightarrow> real" where
  "be_detect_guard pose_data =
     (let left_wrist = pose_data ! kp_left_wrist;
          right_wrist = pose_data ! kp_right_wrist;
          left_elbow = pose_data ! kp_left_elbow;
          right_elbow = pose_data ! kp_right_elbow;
          left_guard = (lm_y left_wrist > lm_y left_elbow \<and>
                        lm_y left_elbow > lm_y left_wrist - 0.3);
          right_guard = (lm_y right_wrist > lm_y right_elbow \<and>
                         lm_y right_elbow > lm_y right_wrist - 0.3)
      in if left_guard \<and> right_guard then 0.8 else 0)"

definition be_boxing_moves :: "(string \<times> (pose \<Rightarrow> real)) list" where
  "be_boxing_moves =
     [(''jab'', be_detect_jab), (''cross'', be_detect_cross), (''hook'', be_detect_hook),
      (''uppercut'', be_detect_uppercut), (''block'', be_detect_block),
      (''dodge'', be_detect_dodge), (''guard'', be_detect_guard)]"

text \<open>The loop of \<^verbatim>\<open>process_pose\<close> over \<^verbatim>\<open>boxing_moves.items()\<close>.\<close>

fun be_detect_loop :: "(string \<times> (pose \<Rightarrow> real)) list \<Rightarrow> pose \<Rightarrow> (string \<times> real) list" where
  "be_detect_loop [] pose_data = []"
| "be_detect_loop ((move_name, detect_func) # rest) pose_data =
     (let confidence = detect_func pose_data
      in if confidence > 0.5 then (move_name, confidence) # be_detect_loop rest pose_data
         else be_detect_loop rest pose_data)"

text \<open>\<^verbatim>\<open>process_pose\<close> from the normalised pose array on; \<open>ready\<close> is \<^verbatim>\<open>self.is_ready()\<close>.
  The body raises nothing on an array of 33 landmarks, so the \<^verbatim>\<open>except\<close> branch has no
  counterpart.\<close>

definition process_pose :: "bool \<Rightarrow> pose \<Rightarrow> (string \<times> real) list" where
  "process_pose ready pose_data =
     (if \<not> ready then [] else be_detect_loop be_boxing_moves pose_data)"

subsection \<open>Standalone: \<^verbatim>\<open>src/pose-detection/pose_detector.py\<close>\<close>

definition sa_calculate_arm_extension :: "landmark \<Rightarrow> landmark \<Rightarrow> landmark \<Rightarrow> real" where
  "sa_calculate_arm_extension wrist elbow shoulder =
     (let wrist_elbow_dist = norm2 wrist elbow;
          elbow_shoulder_dist = norm2 elbow shoulder;
          total_arm_length = wrist_elbow_dist + elbow_shoulder_dist;
          straight_dist = norm2 wrist shoulder
      in if total_arm_length > 0 then min (straight_dist / total_arm_length) 1 else 0)"

definition sa_detect_jab :: "pose \<Rightarrow> real" where
  "sa_detect_jab pose_data =
     (let left_wrist = pose_data ! kp_left_wrist;
          left_elbow = pose_data ! kp_left_elbow;
          left_shoulder = pose_data ! kp_left_shoulder;
          arm_extension = sa_calculate_arm_extension left_wrist left_elbow left_shoulder;
          forward_position = (lm_x left_wrist > lm_x left_shoulder)
      in if arm_extension > 0.8 \<and> forward_position then min arm_extension 1 else 0)"

definition sa_detect_cross :: "pose \<Rightarrow> real" where
  "sa_detect_cross pose_data =
     (let right_wrist = pose_data ! kp_right_wrist;
          right_elbow = pose_data ! kp_right_elbow;
          right_shoulder = pose_data ! kp_right_shoulder;
          arm_extension = sa_calculate_arm_extension right_wrist right_elbow right_shoulder;
          forward_position = (lm_x right_wrist > lm_x right_shoulder)
      in if arm_extension > 0.8 \<and> forward_position then min arm_extension 1 else 0)"

definition sa_detect_hook :: "pose \<Rightarrow> real" where
  "sa_detect_hook pose_data =
     (let left_wrist = pose_data ! kp_left_wrist;
          right_wrist = pose_data ! kp_right_wrist;
          left_shoulder = pose_data ! kp_left_shoulder;
          right_shoulder = pose_data ! kp_right_shoulder;
          left_hook = (lm_y left_wrist > lm_y left_shoulder \<and>
                       \<bar>lm_x left_wrist - lm_x left_shoulder\<bar> > 0.3);
          right_hook = (lm_y right_wrist > lm_y right_shoulder \<and>
                        \<bar>lm_x right_wrist - lm_x right_shoulder\<bar> > 0.3)
      in if left_hook \<or> right_hook then 0.8 else 0)"

definition sa_detect_uppercut :: "pose \<Rightarrow> real" where
  "sa_detect_uppercut pose_data =
     (let left_wrist = pose_data ! kp_left_wrist;
          right_wrist = pose_data ! kp_right_wrist;
          left_shoulder = pose_data ! kp_left_shoulder;
          right_shoulder = pose_data ! kp_right_shoulder;
          left_uppercut = (lm_y left_wrist < lm_y left_shoulder \<and>
                           lm_x left_wrist > lm_x left_shoulder - 0.2);
          right_uppercut = (lm_y right_wrist < lm_y right_shoulder \<and>
                            lm_x right_wrist > lm_x right_shoulder - 0.2)
      in if left_uppercut \<or> right_uppercut then 0.8 else 0)"

definition sa_detect_block :: "pose \<Rightarrow> real" where
  "sa_detect_block pose_data =
     (let left_wrist = pose_data ! kp_left_wrist;
          right_wrist = pose_data ! kp_right_wrist;
          left_shoulder = pose_data ! kp_left_shoulder;
          right_shoulder = pose_data ! kp_right_shoulder;
          left_block = (lm_y left_wrist < lm_y left_shoulder \<and>
                        \<bar>lm_x left_wrist - lm_x left_shoulder\<bar> < 0.3);
          right_block = (lm_y right_wrist < lm_y right_shoulder \<and>
                         \<bar>lm_x right_wrist - lm_x right_shoulder\<bar> < 0.3)
      in if left_block \<and> right_block then 0.9
         else if left_block \<or> right_block then 0.6 else 0)"

definition sa_detect_dodge :: "pose \<Rightarrow> real" where
  "sa_detect_dodge pose_data =
     (let left_hip = pose_data ! kp_left_hip;
          right_hip = pose_data ! kp_right_hip;
          left_shoulder = pose_data ! kp_left_shoulder;
          right_shoulder = pose_data ! kp_right_shoulder;
          shoulder_movement = \<bar>lm_x left_shoulder - lm_x right_shoulder\<bar>;
          hip_movement = \<bar>lm_x left_hip - lm_x right_hip\<bar>
      in if shoulder_movement > 0.4 \<or> hip_movement > 0.4 then 0.7 else 0)"

definition sa_detect_guard :: "pose \<Rightarrow> real" where
  "sa_detect_guard pose_data =
     (let left_wrist = pose_data ! kp_left_wrist;
          right_wrist = pose_data ! kp_right_wrist;
          left_elbow = pose_data ! kp_left_elbow;
          right_elbow = pose_data ! kp_right_elbow;
          left_guard = (lm_y left_wrist > lm_y left_elbow \<and>
                        lm_y left_elbow > lm_y left_wrist - 0.3);
          right_guard = (lm_y right_wrist > lm_y right_elbow \<and>
                         lm_y right_elbow > lm_y right_wrist - 0.3)
      in if left_guard \<and> right_guard then 0.8 else 0)"

definition sa_boxing_moves :: "(string \<times> (pose \<Rightarrow> real)) list" where
  "sa_boxing_moves =
     [(''jab'', sa_detect_jab), (''cross'', sa_detect_cross), (''hook'', sa_detect_hook),
      (''uppercut'', sa_detect_uppercut), (''block'', sa_detect_block),
      (''dodge'', sa_detect_dodge), (''guard'', sa_detect_guard)]"

definition move_thresholds :: "(string \<times> real) list" where
  "move_thresholds = [(''jab'', 0.7), (''cross'', 0.7), (''hook'', 0.6), (''uppercut'', 0.6),
     (''block'', 0.5), (''dodge'', 0.5), (''guard'', 0.5)]"

text \<open>The loop of \<^verbatim>\<open>_detect_boxing_moves\<close>; \<open>None\<close> is the \<^verbatim>\<open>KeyError\<close> of
  \<^verbatim>\<open>self.move_thresholds[move_name]\<close> on a name without threshold.\<close>

fun sa_detect_loop ::
  "(string \<times> (pose \<Rightarrow> real)) list \<Rightarrow> pose \<Rightarrow> (string \<times> real) list option" where
  "sa_detect_loop [] pose_data = Some []"
| "sa_detect_loop ((move_name, detect_func) # rest) pose_data =
     (let confidence = detect_func pose_data
      in case map_of move_thresholds move_name of
           None \<Rightarrow> None
         | Some threshold \<Rightarrow>
            (case sa_detect_loop rest pose_data of
               None \<Rightarrow> None
             | Some detected_moves \<Rightarrow>
                 Some (if confidence > threshold then (move_name, confidence) # detected_moves
                       else detected_moves)))"

definition detect_boxing_moves :: "pose \<Rightarrow> (string \<times> real) list option" where
  "detect_boxing_moves pose_data = sa_detect_loop sa_boxing_moves pose_data"

section \<open>Operation sequences\<close>

text \<open>The operations a caller has on a match, each with the clock readings it makes, and
  the state each leaves behind (also when it raises).\<close>

datatype operation =
    Register string string
  | Deregister string
  | Start real
  | Pause
  | Resume
  | Finish
  | ProcessBatch real real real "ActionData list"
  | Snapshot
  | Reset

fun step :: "operation \<Rightarrow> BoxingGame \<Rightarrow> BoxingGame" where
  "step (Register k nm) g = fst (add_player k nm g)"
| "step (Deregister k) g = fst (remove_player k g)"
| "step (Start now) g = fst (start_game now g)"
| "step Pause g = pause_game g"
| "step Resume g = resume_game g"
| "step Finish g = end_game g"
| "step (ProcessBatch t0 t1 t2 actions) g = fst (process_actions t0 t1 t2 actions g)"
| "step Snapshot g = g"
| "step Reset g = reset g"

fun run :: "operation list \<Rightarrow> BoxingGame \<Rightarrow> BoxingGame" where
  "run [] g = g"
| "run (x # xs) g = run xs (step x g)"

section \<open>A participant before and after an operation\<close>

text \<open>What the operations that keep a participant registered have in common: the id stays,
  the score does not fall, and a health within 0 and 100 stays within 0 and 100.\<close>

definition evolves :: "Player \<Rightarrow> Player \<Rightarrow> bool" where
  "evolves p q \<longleftrightarrow> ident q = ident p \<and> score p \<le> score q
     \<and> (0 \<le> health p \<and> health p \<le> 100 \<longrightarrow> 0 \<le> health q \<and> health q \<le> 100)"

section \<open>Move names as the specification reads them\<close>

text \<open>Case-insensitive comparison of ASCII strings, for the specification's reading of a
  move name; the engine has no such function.\<close>

definition spec_lower_char :: "char \<Rightarrow> char" where
  "spec_lower_char c =
     (case map_of (zip ''ABCDEFGHIJKLMNOPQRSTUVWXYZ'' ''abcdefghijklmnopqrstuvwxyz'') c of
        None \<Rightarrow> c | Some d \<Rightarrow> d)"

definition spec_move_kind :: "string \<Rightarrow> MoveType option" where
  "spec_move_kind s = MoveType_of (map spec_lower_char s)"


section \<open>Scenario fixtures\<close>

text \<open>Participants and a running match as the scenarios of the specification set them up.\<close>

definition scenario_player :: "string \<Rightarrow> int \<Rightarrow> int \<Rightarrow> bool \<Rightarrow> bool \<Rightarrow> Player" where
  "scenario_player k h s b d = \<lparr>ident = k, name = k, health = h, score = s, last_move = None,
     last_move_time = None, is_blocking = b, is_dodging = d\<rparr>"

definition scenario_game :: "Player list \<Rightarrow> BoxingGame" where
  "scenario_game ps = \<lparr>state = PLAYING, players = ps, round_time = 180, current_round = 1,
     max_rounds = 3, game_start_time = Some 1000, last_update_time = None\<rparr>"

definition scenario_action :: "string \<Rightarrow> string \<Rightarrow> real \<Rightarrow> GameAction" where
  "scenario_action k m c = \<lparr>player_id = k, move_type = m, confidence = c, timestamp = 1001\<rparr>"

definition scenario_data :: "string \<Rightarrow> string \<Rightarrow> real \<Rightarrow> ActionData" where
  "scenario_data k m c = \<lparr>ad_player_id = Some k, ad_move = Some m, ad_confidence = Some c,
     ad_timestamp = None\<rparr>"

text \<open>The sample pose of \<^verbatim>\<open>test_move_detection\<close> in
  \<^verbatim>\<open>src/pose-detection/test_pose_detection.py\<close>: a left arm stretched forward, every other
  landmark zero.\<close>

definition sample_pose_data :: pose where
  "sample_pose_data = (replicate 33 (0, 0, 0))
     [11 := (0.3, 0.5, 0.9), 13 := (0.4, 0.5, 0.9), 15 := (0.8, 0.5, 0.9)]"

section \<open>Auxiliary facts\<close>

subsection \<open>Truncation and floor\<close>

lemma floor_nonpos: "x \<le> 0 \<Longrightarrow> \<lfloor>x::real\<rfloor> \<le> 0"
  by linarith

lemma py_int_nonpos: "x \<le> 0 \<Longrightarrow> py_int x \<le> 0"
  unfolding py_int_def by (auto simp: ceiling_le_zero) 

lemma py_int_nonneg: "0 \<le> x \<Longrightarrow> py_int x = \<lfloor>x\<rfloor>"
  unfolding py_int_def by simp

lemma max_py_int_nonpos: "x \<le> 0 \<Longrightarrow> max 0 (py_int x) = 0"
  by (rule max_absorb1) (rule py_int_nonpos)

lemma max_floor_nonpos: "x \<le> 0 \<Longrightarrow> max 0 \<lfloor>x::real\<rfloor> = 0"
  by (rule max_absorb1) (rule floor_nonpos)

lemma py_int_clamp: "max 0 (py_int x) = max 0 \<lfloor>x\<rfloor>"
proof (cases "0 \<le> x")
  case True
  then show ?thesis by (simp add: py_int_nonneg)
next
  case False
  then have neg: "x \<le> 0" by simp
  show ?thesis
    by (simp only: max_py_int_nonpos [OF neg] max_floor_nonpos [OF neg])
qed

lemma py_int_clamp_scaled:
  assumes "0 \<le> e"
  shows "max 0 (py_int (of_int (py_int x) * e)) = max 0 \<lfloor>of_int \<lfloor>x\<rfloor> * e\<rfloor>"
proof (cases "0 \<le> x")
  case True
  then show ?thesis by (simp only: py_int_nonneg py_int_clamp)
next
  case False
  then have neg: "x \<le> 0" by simp
  have "real_of_int (py_int x) \<le> 0"
    using py_int_nonpos [OF neg] by (simp only: of_int_le_0_iff)
  then have l: "of_int (py_int x) * e \<le> 0"
    using assms by (rule mult_nonpos_nonneg)
  have "real_of_int \<lfloor>x\<rfloor> \<le> 0"
    using floor_nonpos [OF neg] by (simp only: of_int_le_0_iff)
  then have r: "of_int \<lfloor>x\<rfloor> * e \<le> 0"
    using assms by (rule mult_nonpos_nonneg)
  show ?thesis
    by (simp only: max_py_int_nonpos [OF l] max_floor_nonpos [OF r])
qed

subsection \<open>Damage\<close>

lemma move_effectiveness_nonneg: "0 \<le> move_effectiveness m"
  by (cases m) (simp_all add: move_effectiveness_def)

lemma spec_tables: "spec_base_damage m = move_damage m" "spec_effectiveness m = move_effectiveness m"
  by (cases m; simp add: spec_base_damage_def move_damage_def spec_effectiveness_def move_effectiveness_def)+

lemma calculate_damage_spec:
  "calculate_damage m c opp = spec_damage m c (is_blocking opp) (is_dodging opp)"
  using py_int_clamp [of "of_int (move_damage m) * c"]
    py_int_clamp_scaled [OF move_effectiveness_nonneg, of "of_int (move_damage m) * c" m]
  by (simp add: calculate_damage_def spec_damage_def spec_tables Let_def)

lemma calculate_damage_nonneg: "0 \<le> calculate_damage m c opp"
  by (simp add: calculate_damage_def Let_def)


subsection \<open>The players dict\<close>

lemma lookup_update_same:
  "lookup k ps = Some p \<Longrightarrow> ident (f p) = k \<Longrightarrow> lookup k (update_player k f ps) = Some (f p)"
  by (induction ps) (auto simp: lookup_def)

lemma lookup_update_other:
  "k' \<noteq> k \<Longrightarrow> (\<And>p. ident (f p) = ident p) \<Longrightarrow> lookup k' (update_player k f ps) = lookup k' ps"
  by (induction ps) (auto simp: lookup_def)

lemma map_ident_update:
  "(\<And>p. ident (f p) = ident p) \<Longrightarrow> map ident (update_player k f ps) = map ident ps"
  by (induction ps) auto

lemma length_update_player [simp]: "length (update_player k f ps) = length ps"
  by (induction ps) auto

lemma find_other_update:
  "(\<And>p. ident (f p) = ident p) \<Longrightarrow>
   find (\<lambda>p. ident p \<noteq> k) (update_player k f ps) = find (\<lambda>p. ident p \<noteq> k) ps"
  by (induction ps) auto

lemma lookup_Some_ident: "lookup k ps = Some p \<Longrightarrow> ident p = k"
  by (auto simp: lookup_def find_Some_iff)

lemma get_opponent_Some:
  assumes "get_opponent g k = Some opp"
  shows "ident opp \<noteq> k" and "lookup (ident opp) (players g) = Some opp"
proof -
  from assms obtain q where q: "find (\<lambda>p. ident p \<noteq> k) (players g) = Some q"
    and l: "lookup (ident q) (players g) = Some opp"
    by (auto simp: get_opponent_def split: if_splits option.splits)
  from q have "ident q \<noteq> k" by (auto simp: find_Some_iff)
  moreover from l have "ident opp = ident q" by (rule lookup_Some_ident)
  ultimately show "ident opp \<noteq> k" and "lookup (ident opp) (players g) = Some opp"
    using l by simp_all
qed

lemma get_opponent_update_actor:
  assumes "\<And>p. ident (f p) = ident p"
  shows "get_opponent (g\<lparr>players := update_player k f (players g)\<rparr>) k = get_opponent g k"
proof -
  have "lookup (ident q) (update_player k f (players g)) = lookup (ident q) (players g)"
    if "find (\<lambda>p. ident p \<noteq> k) (players g) = Some q" for q
  proof -
    from that have "ident q \<noteq> k" by (auto simp: find_Some_iff)
    then show ?thesis using assms by (simp add: lookup_update_other)
  qed
  then show ?thesis
    using assms by (simp add: get_opponent_def find_other_update split: option.splits)
qed

lemma lookup_update_player:
  "(\<And>p. ident (f p) = ident p) \<Longrightarrow>
   lookup k' (update_player k f ps) = (if k' = k then map_option f (lookup k ps) else lookup k' ps)"
  by (induction ps) (auto simp: lookup_def)

lemma filter_other_update:
  "(\<And>p. ident (f p) = ident p) \<Longrightarrow>
   filter (\<lambda>p. ident p \<noteq> k) (update_player k f ps) = filter (\<lambda>p. ident p \<noteq> k) ps"
  by (induction ps) auto

subsection \<open>One action and the batch loop\<close>

lemma psa_unfold:
  "process_single_action a g =
     (case lookup (player_id a) (players g) of
        None \<Rightarrow> (g, None)
      | Some _ \<Rightarrow>
         (case MoveType_of (move_type a) of
            None \<Rightarrow> (g, Some (InvalidMoveType (move_type a)))
          | Some mt \<Rightarrow>
             (let g1 = g\<lparr>players := update_player (player_id a)
                          (\<lambda>p. p\<lparr>last_move := Some (move_type a),
                                  last_move_time := Some (timestamp a)\<rparr>) (players g)\<rparr>
              in if mt = BLOCK \<or> mt = DODGE \<or> mt = GUARD then
                   (g1\<lparr>players := update_player (player_id a)
                          (\<lambda>p. if mt = BLOCK then p\<lparr>is_blocking := True, is_dodging := False\<rparr>
                                else if mt = DODGE then p\<lparr>is_dodging := True, is_blocking := False\<rparr>
                                else p\<lparr>is_blocking := False, is_dodging := False\<rparr>)
                          (players g1)\<rparr>, None)
                 else
                   (case get_opponent g1 (player_id a) of
                      None \<Rightarrow> (g1, None)
                    | Some opponent \<Rightarrow>
                       (let damage = calculate_damage mt (confidence a) opponent;
                            g2 = apply_damage (ident opponent) damage g1
                        in if damage > 0
                           then (g2\<lparr>players := update_player (player_id a)
                                    (\<lambda>p. p\<lparr>score := score p + damage\<rparr>) (players g2)\<rparr>, None)
                           else (g2, None))))))"
  unfolding process_single_action_def
  apply (cases "lookup (player_id a) (players g)")
   apply simp
  apply (cases "MoveType_of (move_type a)")
   apply simp
  subgoal for p mt
    by (cases mt) (simp_all add: Let_def)
  done

lemma process_single_action_unknown:
  "lookup (player_id a) (players g) = None \<Longrightarrow> process_single_action a g = (g, None)"
  by (simp add: process_single_action_def)

lemma process_single_action_invalid:
  "lookup (player_id a) (players g) = Some p \<Longrightarrow> MoveType_of (move_type a) = None \<Longrightarrow>
   process_single_action a g = (g, Some (InvalidMoveType (move_type a)))"
  by (simp add: process_single_action_def)

lemma process_single_action_valid:
  "MoveType_of (move_type a) = Some mt \<Longrightarrow> snd (process_single_action a g) = None"
  by (simp add: psa_unfold Let_def split: option.splits)

lemma process_single_action_frame:
  "fst (process_single_action a g) = g\<lparr>players := players (fst (process_single_action a g))\<rparr>"
  by (simp add: psa_unfold apply_damage_def Let_def split: option.splits)

lemma process_action_list_frame:
  "fst (process_action_list t xs g) = g\<lparr>players := players (fst (process_action_list t xs g))\<rparr>"
proof (induction xs arbitrary: g)
  case Nil
  then show ?case by simp
next
  case (Cons x xs)
  show ?case
  proof (cases "ad_move x")
    case None
    then show ?thesis using Cons.IH [of g] by simp
  next
    case m: (Some m)
    show ?thesis
    proof (cases "ad_confidence x")
      case None
      then show ?thesis using m Cons.IH [of g] by simp
    next
      case c: (Some c)
      let ?a = "\<lparr>player_id = (case ad_player_id x of None \<Rightarrow> ''player1'' | Some k \<Rightarrow> k),
                 move_type = m, confidence = c,
                 timestamp = (case ad_timestamp x of None \<Rightarrow> t | Some t' \<Rightarrow> t')\<rparr>"
      obtain g' r where r: "process_single_action ?a g = (g', r)" by force
      have f: "g' = g\<lparr>players := players g'\<rparr>"
        using process_single_action_frame [of ?a g] r by simp
      show ?thesis
      proof (cases r)
        case None
        have "fst (process_action_list t xs g') = g'\<lparr>players := players (fst (process_action_list t xs g'))\<rparr>"
          by (rule Cons.IH)
        moreover have "g'\<lparr>players := P\<rparr> = g\<lparr>players := P\<rparr>" for P
          by (subst f) simp
        ultimately have "fst (process_action_list t xs g') = g\<lparr>players := players (fst (process_action_list t xs g'))\<rparr>"
          by simp
        then show ?thesis using m c r None by simp
      next
        case (Some e)
        then show ?thesis using m c r f by simp
      qed
    qed
  qed
qed

lemma process_action_list_append:
  "process_action_list t (pre @ rest) g =
     (case process_action_list t pre g of
        (g', Some e) \<Rightarrow> (g', Some e)
      | (g', None) \<Rightarrow> process_action_list t rest g')"
  by (induction pre arbitrary: g) (auto split: option.splits prod.splits)

lemma process_single_action_actor:
  assumes "lookup (player_id a) (players g) = Some p" and "MoveType_of (move_type a) = Some mt"
  shows "\<exists>p'. lookup (player_id a) (players (fst (process_single_action a g))) = Some p'
           \<and> last_move p' = Some (move_type a) \<and> last_move_time p' = Some (timestamp a)"
proof -
  let ?k = "player_id a"
  let ?rec = "\<lambda>p. p\<lparr>last_move := Some (move_type a), last_move_time := Some (timestamp a)\<rparr>"
  let ?g1 = "g\<lparr>players := update_player ?k ?rec (players g)\<rparr>"
  have l1: "lookup ?k (players ?g1) = Some (?rec p)"
    using assms(1) by (simp add: lookup_update_player)
  show ?thesis
  proof (cases "get_opponent ?g1 ?k")
    case None
    then show ?thesis
      using assms l1 by (simp add: psa_unfold Let_def lookup_update_player)
  next
    case (Some opp)
    then have "ident opp \<noteq> ?k" by (rule get_opponent_Some)
    then show ?thesis
      using assms l1 Some
      by (simp add: psa_unfold Let_def lookup_update_player apply_damage_def)
  qed
qed

subsection \<open>First matches in iteration order\<close>

lemma find_first:
  "xs = pre @ w # post \<Longrightarrow> (\<forall>p\<in>set pre. \<not> P p) \<Longrightarrow> P w \<Longrightarrow> find P xs = Some w"
  by (induction pre arbitrary: xs) auto

lemma find_none: "(\<forall>p\<in>set xs. \<not> P p) \<Longrightarrow> find P xs = None"
  by (induction xs) auto

lemma update_player_first:
  "xs = pre @ w # post \<Longrightarrow> (\<forall>p\<in>set pre. ident p \<noteq> k) \<Longrightarrow> ident w = k \<Longrightarrow>
   update_player k f xs = pre @ f w # post"
  by (induction pre arbitrary: xs) auto

lemma map_health_update:
  "(\<And>p. health (f p) = health p) \<Longrightarrow> map health (update_player k f ps) = map health ps"
  by (induction ps) auto

subsection \<open>The stable descending sort\<close>

lemma last_sorted_max:
  assumes "sorted (map f ys)" and "y \<in> set ys"
  shows "f y \<le> f (last ys)"
  using assms
proof (induction ys)
  case Nil
  then show ?case by simp
next
  case (Cons a ys)
  show ?case
  proof (cases "ys = []")
    case True
    then show ?thesis using Cons.prems by simp
  next
    case False
    then have l: "last (a # ys) = last ys" by simp
    have s: "sorted (map f ys)" using Cons.prems(1) by simp
    show ?thesis
    proof (cases "y = a")
      case True
      have "f a \<le> f (last ys)" using Cons.prems(1) False by simp
      then show ?thesis using True l by simp
    next
      case False
      then have "y \<in> set ys" using Cons.prems(2) by simp
      then show ?thesis using Cons.IH [OF s] l by simp
    qed
  qed
qed

lemma last_filter_self: "ys \<noteq> [] \<Longrightarrow> P (last ys) \<Longrightarrow> last (filter P ys) = last ys"
  by (cases ys rule: rev_cases) simp_all

lemma sort_reverse_winner:
  assumes "xs \<noteq> []"
  shows "\<exists>pre w post. xs = pre @ w # post \<and> sort_reverse f xs = w # tl (sort_reverse f xs)
           \<and> (\<forall>p\<in>set pre. f p < f w) \<and> (\<forall>p\<in>set post. f p \<le> f w)"
proof -
  define ys where "ys = sort_key f (rev xs)"
  define w where "w = last ys"
  let ?P = "\<lambda>y. f y = f w"
  have ne: "ys \<noteq> []"
  proof
    assume "ys = []"
    then have "length (sort_key f (rev xs)) = 0" by (simp add: ys_def)
    then show False using assms by simp
  qed
  have srt: "sorted (map f ys)" and st: "set ys = set xs"
    by (simp_all add: ys_def)
  have mx: "f p \<le> f w" if "p \<in> set xs" for p
    unfolding w_def using that st by (intro last_sorted_max [OF srt]) simp
  have "filter ?P ys = rev (filter ?P xs)"
    unfolding ys_def by (simp only: sort_key_stable rev_filter)
  moreover have "last (filter ?P ys) = w"
    unfolding w_def using ne by (intro last_filter_self) (simp_all add: w_def)
  ultimately have lw: "last (rev (filter ?P xs)) = w" by simp
  have win: "w \<in> set xs" using last_in_set [OF ne] st by (simp add: w_def)
  then have fne: "filter ?P xs \<noteq> []" by (auto simp: filter_empty_conv)
  have "hd (filter ?P xs) = w" using lw fne by (simp add: last_rev)
  then have "filter ?P xs = w # tl (filter ?P xs)" using fne by (cases "filter ?P xs") simp_all
  then obtain pre post where xs: "xs = pre @ w # post" and pre: "\<forall>p\<in>set pre. \<not> ?P p"
    by (auto simp: filter_eq_Cons_iff)
  have "f p < f w" if "p \<in> set pre" for p
    using mx [of p] pre that xs by (auto simp: less_le)
  moreover have "f p \<le> f w" if "p \<in> set post" for p
    using mx [of p] that xs by auto
  moreover have "sort_reverse f xs = w # tl (sort_reverse f xs)"
    using ne by (cases ys rule: rev_cases) (simp_all add: sort_reverse_def ys_def [symmetric] w_def)
  ultimately show ?thesis using xs by blast
qed

subsection \<open>How a batch changes the participants\<close>

lemma evolves_refl [simp]: "evolves p p"
  by (simp add: evolves_def)

lemma evolves_trans: "evolves p q \<Longrightarrow> evolves q r \<Longrightarrow> evolves p r"
  by (auto simp: evolves_def)

lemma all_evolve_refl [simp]: "list_all2 evolves ps ps"
  by (simp add: list_all2_refl)

lemma all_evolve_trans:
  "list_all2 evolves ps qs \<Longrightarrow> list_all2 evolves qs rs \<Longrightarrow> list_all2 evolves ps rs"
  by (rule list_all2_trans [of evolves evolves evolves]) (rule evolves_trans)

lemma update_player_evolves:
  "(\<And>p. evolves p (f p)) \<Longrightarrow> list_all2 evolves ps (update_player k f ps)"
  by (induction ps) simp_all

lemma map_evolves: "(\<And>p. evolves p (f p)) \<Longrightarrow> list_all2 evolves ps (map f ps)"
  by (induction ps) simp_all

lemma evolves_health:
  "evolves p q \<Longrightarrow> 0 \<le> health p \<and> health p \<le> 100 \<Longrightarrow> 0 \<le> health q \<and> health q \<le> 100"
  unfolding evolves_def by blast

lemma all_evolve_health:
  "list_all2 evolves ps qs \<Longrightarrow> \<forall>p\<in>set ps. 0 \<le> health p \<and> health p \<le> 100 \<Longrightarrow>
   \<forall>q\<in>set qs. 0 \<le> health q \<and> health q \<le> 100"
proof (induction rule: list_all2_induct)
  case Nil
  then show ?case by simp
next
  case (Cons p ps q qs)
  have "0 \<le> health p \<and> health p \<le> 100" using Cons.prems by simp
  then have "0 \<le> health q \<and> health q \<le> 100" using Cons.hyps(1) by (rule evolves_health [rotated])
  moreover have "\<forall>q\<in>set qs. 0 \<le> health q \<and> health q \<le> 100"
    using Cons.prems by (intro Cons.IH) simp
  ultimately show ?case by simp
qed

lemma evolves_score: "evolves p q \<Longrightarrow> ident q = ident p \<and> score p \<le> score q"
  unfolding evolves_def by blast

lemma all_evolve_score:
  "list_all2 evolves ps qs \<Longrightarrow> lookup k ps = Some p \<Longrightarrow> lookup k qs = Some q \<Longrightarrow>
   score p \<le> score q"
proof (induction rule: list_all2_induct)
  case Nil
  then show ?case by (simp add: lookup_def)
next
  case (Cons a ps b qs)
  have ab: "ident b = ident a" "score a \<le> score b"
    using evolves_score [OF Cons.hyps(1)] by simp_all
  show ?case
  proof (cases "ident a = k")
    case True
    then have "p = a" "q = b" using Cons.prems ab by (simp_all add: lookup_def)
    then show ?thesis using ab by simp
  next
    case False
    then have "lookup k ps = Some p" "lookup k qs = Some q"
      using Cons.prems ab by (simp_all add: lookup_def)
    then show ?thesis by (rule Cons.IH)
  qed
qed

lemma process_single_action_evolves:
  "list_all2 evolves (players g) (players (fst (process_single_action a g)))"
proof -
  let ?k = "player_id a"
  let ?rec = "\<lambda>p. p\<lparr>last_move := Some (move_type a), last_move_time := Some (timestamp a)\<rparr>"
  let ?g1 = "g\<lparr>players := update_player ?k ?rec (players g)\<rparr>"
  have s1: "list_all2 evolves (players g) (players ?g1)"
    by (simp add: update_player_evolves evolves_def)
  have stance: "list_all2 evolves (players ?g1) (update_player ?k
      (\<lambda>p. if mt = BLOCK then p\<lparr>is_blocking := True, is_dodging := False\<rparr>
            else if mt = DODGE then p\<lparr>is_dodging := True, is_blocking := False\<rparr>
            else p\<lparr>is_blocking := False, is_dodging := False\<rparr>) (players ?g1))" for mt
    by (rule update_player_evolves) (simp add: evolves_def)
  have hit: "list_all2 evolves (players ?g1) (players (apply_damage k' d ?g1))"
    if "0 \<le> d" for k' d
    unfolding apply_damage_def using that
    by (simp add: update_player_evolves evolves_def del: update_player.simps)
  have pts: "list_all2 evolves ps (update_player ?k (\<lambda>p. p\<lparr>score := score p + d\<rparr>) ps)"
    if "0 < d" for d ps
    using that by (intro update_player_evolves) (simp add: evolves_def)
  show ?thesis
  proof (cases "lookup ?k (players g)")
    case None
    then show ?thesis by (simp add: process_single_action_unknown)
  next
    case (Some actor)
    show ?thesis
    proof (cases "MoveType_of (move_type a)")
      case None
      then show ?thesis using Some by (simp add: process_single_action_invalid)
    next
      case mt: (Some mt)
      show ?thesis
      proof (cases "mt = BLOCK \<or> mt = DODGE \<or> mt = GUARD")
        case True
        then have "players (fst (process_single_action a g)) = update_player ?k
            (\<lambda>p. if mt = BLOCK then p\<lparr>is_blocking := True, is_dodging := False\<rparr>
                  else if mt = DODGE then p\<lparr>is_dodging := True, is_blocking := False\<rparr>
                  else p\<lparr>is_blocking := False, is_dodging := False\<rparr>) (players ?g1)"
          using Some mt by (simp add: psa_unfold Let_def)
        then show ?thesis using all_evolve_trans [OF s1 stance [of mt]] by simp
      next
        case False
        show ?thesis
        proof (cases "get_opponent ?g1 ?k")
          case None
          then have "fst (process_single_action a g) = ?g1"
            using Some mt False by (simp add: psa_unfold Let_def)
          then show ?thesis using s1 by simp
        next
          case opp: (Some opp)
          let ?d = "calculate_damage mt (confidence a) opp"
          let ?g2 = "apply_damage (ident opp) ?d ?g1"
          have s2: "list_all2 evolves (players g) (players ?g2)"
            using all_evolve_trans [OF s1 hit [OF calculate_damage_nonneg]] .
          show ?thesis
          proof (cases "0 < ?d")
            case True
            then have "players (fst (process_single_action a g))
                = update_player ?k (\<lambda>p. p\<lparr>score := score p + ?d\<rparr>) (players ?g2)"
              using Some mt False opp by (simp add: psa_unfold Let_def)
            then show ?thesis using all_evolve_trans [OF s2 pts [OF True]] by simp
          next
            case no: False
            then have "fst (process_single_action a g) = ?g2"
              using Some mt False opp by (simp add: psa_unfold Let_def)
            then show ?thesis using s2 by simp
          qed
        qed
      qed
    qed
  qed
qed

lemma process_action_list_evolves:
  "list_all2 evolves (players g) (players (fst (process_action_list t xs g)))"
proof (induction xs arbitrary: g)
  case Nil
  then show ?case by simp
next
  case (Cons x xs)
  show ?case
  proof (cases "ad_move x")
    case None
    then show ?thesis using Cons.IH [of g] by simp
  next
    case m: (Some m)
    show ?thesis
    proof (cases "ad_confidence x")
      case None
      then show ?thesis using m Cons.IH [of g] by simp
    next
      case c: (Some c)
      let ?a = "\<lparr>player_id = (case ad_player_id x of None \<Rightarrow> ''player1'' | Some k \<Rightarrow> k),
                 move_type = m, confidence = c,
                 timestamp = (case ad_timestamp x of None \<Rightarrow> t | Some t' \<Rightarrow> t')\<rparr>"
      obtain g' r where r: "process_single_action ?a g = (g', r)" by force
      have one: "list_all2 evolves (players g) (players g')"
        using process_single_action_evolves [of g ?a] r by simp
      show ?thesis
      proof (cases r)
        case None
        then have "process_action_list t (x # xs) g = process_action_list t xs g'"
          using m c r by simp
        then show ?thesis using all_evolve_trans [OF one Cons.IH [of g']] by simp
      next
        case (Some e)
        then have "process_action_list t (x # xs) g = (g', Some e)"
          using m c r by simp
        then show ?thesis using one by simp
      qed
    qed
  qed
qed

lemma handle_knockout_evolves:
  "list_all2 evolves (players g) (players (handle_knockout ko g))"
  by (simp add: handle_knockout_def update_player_evolves evolves_def split: option.splits)

lemma handle_round_end_evolves:
  "list_all2 evolves (players g) (players (handle_round_end now g))"
proof -
  let ?key = "\<lambda>p. (health p, score p)"
  let ?bonus = "\<lambda>p. p\<lparr>score := score p + 25\<rparr>"
  let ?fresh = "\<lambda>p. p\<lparr>health := 100, is_blocking := False, is_dodging := False\<rparr>"
  define ranked where "ranked =
    (if length (players g) \<ge> 2 then
       (case sort_reverse ?key (players g) of
          winner # _ \<Rightarrow> update_player (ident winner) ?bonus (players g)
        | [] \<Rightarrow> players g)
     else players g)"
  have a: "list_all2 evolves (players g) ranked"
    unfolding ranked_def
    by (simp add: update_player_evolves evolves_def split: list.splits)
  have b: "list_all2 evolves ranked (map ?fresh ranked)"
    by (rule map_evolves) (simp add: evolves_def)
  have "players (handle_round_end now g) = ranked
      \<or> players (handle_round_end now g) = map ?fresh ranked"
    unfolding ranked_def handle_round_end_def Let_def
    by (cases "sort_reverse ?key (players g)") simp_all
  then show ?thesis using a all_evolve_trans [OF a b] by auto
qed

lemma check_game_conditions_evolves:
  "list_all2 evolves (players g) (players (check_game_conditions t1 t2 g))"
  by (simp add: check_game_conditions_def handle_knockout_evolves handle_round_end_evolves
      split: option.splits)

lemma process_actions_evolves:
  "list_all2 evolves (players g) (players (fst (process_actions t0 t1 t2 xs g)))"
proof (cases "state g = PLAYING")
  case False
  then show ?thesis by (simp add: process_actions_def)
next
  case True
  let ?g0 = "g\<lparr>last_update_time := Some t0\<rparr>"
  obtain g1 r where r: "process_action_list t0 xs ?g0 = (g1, r)" by force
  have one: "list_all2 evolves (players g) (players g1)"
    using process_action_list_evolves [of ?g0 t0 xs] r by simp
  show ?thesis
  proof (cases r)
    case None
    then have "fst (process_actions t0 t1 t2 xs g) = check_game_conditions t1 t2 g1"
      using True r by (simp add: process_actions_def)
    then show ?thesis
      using all_evolve_trans [OF one check_game_conditions_evolves [of g1 t1 t2]] by simp
  next
    case (Some e)
    then have "fst (process_actions t0 t1 t2 xs g) = g1"
      using True r by (simp add: process_actions_def)
    then show ?thesis using one by simp
  qed
qed

subsection \<open>Single operations\<close>

lemma update_player_const_set:
  "set (update_player k (\<lambda>_. q) ps) \<subseteq> insert q (set ps)"
  by (induction ps) auto

lemma lookup_append:
  "lookup k (ps @ qs) = (case lookup k ps of None \<Rightarrow> lookup k qs | Some p \<Rightarrow> Some p)"
  by (induction ps) (auto simp: lookup_def)

lemma lookup_filter_other:
  "lookup k (filter (\<lambda>p. ident p \<noteq> k') ps) = (if k = k' then None else lookup k ps)"
  by (induction ps) (auto simp: lookup_def)

lemma step_health:
  assumes "\<forall>p\<in>set (players g). 0 \<le> health p \<and> health p \<le> 100"
  shows "\<forall>p\<in>set (players (step x g)). 0 \<le> health p \<and> health p \<le> 100"
proof (cases x)
  case (Register k nm)
  have "set (players (fst (add_player k nm g))) \<subseteq> insert (new_player k nm) (set (players g))"
    using update_player_const_set [of k "new_player k nm" "players g"]
    by (auto simp: add_player_def Let_def split: option.splits)
  moreover have "0 \<le> health (new_player k nm) \<and> health (new_player k nm) \<le> 100"
    by (simp add: new_player_def)
  ultimately show ?thesis using assms Register by auto
next
  case (Deregister k)
  then show ?thesis using assms by (auto simp: remove_player_def split: option.splits)
next
  case (Start now)
  then show ?thesis using assms by (auto simp: start_game_def)
next
  case Pause
  then show ?thesis using assms by (simp add: pause_game_def)
next
  case Resume
  then show ?thesis using assms by (simp add: resume_game_def)
next
  case Finish
  then show ?thesis using assms by (simp add: end_game_def)
next
  case (ProcessBatch t0 t1 t2 xs)
  then show ?thesis
    using all_evolve_health [OF process_actions_evolves [of g t0 t1 t2 xs] assms] by simp
next
  case Snapshot
  then show ?thesis using assms by simp
next
  case Reset
  then show ?thesis by (simp add: reset_def)
qed

lemma run_health:
  "\<forall>p\<in>set (players g). 0 \<le> health p \<and> health p \<le> 100 \<Longrightarrow>
   \<forall>p\<in>set (players (run ops g)). 0 \<le> health p \<and> health p \<le> 100"
proof (induction ops arbitrary: g)
  case Nil
  then show ?case by simp
next
  case (Cons x ops)
  have "\<forall>p\<in>set (players (step x g)). 0 \<le> health p \<and> health p \<le> 100"
    using Cons.prems by (rule step_health)
  then show ?case using Cons.IH [of "step x g"] by simp
qed

subsection \<open>The detectors of the two classifiers\<close>

lemma arm_extension_same: "sa_calculate_arm_extension = be_calculate_arm_extension"
  by (intro ext) (simp add: sa_calculate_arm_extension_def be_calculate_arm_extension_def)

lemma detectors_same:
  "sa_detect_jab = be_detect_jab" "sa_detect_cross = be_detect_cross"
  "sa_detect_hook = be_detect_hook" "sa_detect_uppercut = be_detect_uppercut"
  "sa_detect_block = be_detect_block" "sa_detect_dodge = be_detect_dodge"
  "sa_detect_guard = be_detect_guard"
  by (intro ext, simp add: arm_extension_same
      sa_detect_jab_def be_detect_jab_def sa_detect_cross_def be_detect_cross_def
      sa_detect_hook_def be_detect_hook_def sa_detect_uppercut_def be_detect_uppercut_def
      sa_detect_block_def be_detect_block_def sa_detect_dodge_def be_detect_dodge_def
      sa_detect_guard_def be_detect_guard_def)+

lemma jab_threshold: "7 / 10 < be_detect_jab pd \<longleftrightarrow> 5 / 10 < be_detect_jab pd"
  by (auto simp: be_detect_jab_def Let_def min_def)

lemma cross_threshold: "7 / 10 < be_detect_cross pd \<longleftrightarrow> 5 / 10 < be_detect_cross pd"
  by (auto simp: be_detect_cross_def Let_def min_def)

lemma hook_threshold: "6 / 10 < be_detect_hook pd \<longleftrightarrow> 5 / 10 < be_detect_hook pd"
  by (simp add: be_detect_hook_def Let_def)

lemma uppercut_threshold: "6 / 10 < be_detect_uppercut pd \<longleftrightarrow> 5 / 10 < be_detect_uppercut pd"
  by (simp add: be_detect_uppercut_def Let_def)

lemma norm2_level: "lm_y a = lm_y b \<Longrightarrow> norm2 a b = \<bar>lm_x a - lm_x b\<bar>"
  by (simp add: norm2_def)

lemma detect_loop_step:
  assumes "map_of move_thresholds n = Some th"
    and "th < f pd \<longleftrightarrow> 5 / 10 < f pd"
    and "sa_detect_loop rest pd = Some (be_detect_loop rest pd)"
  shows "sa_detect_loop ((n, f) # rest) pd = Some (be_detect_loop ((n, f) # rest) pd)"
  using assms by (simp add: Let_def)

lemma threshold_of:
  "map_of move_thresholds ''jab'' = Some (7 / 10)"
  "map_of move_thresholds ''cross'' = Some (7 / 10)"
  "map_of move_thresholds ''hook'' = Some (6 / 10)"
  "map_of move_thresholds ''uppercut'' = Some (6 / 10)"
  "map_of move_thresholds ''block'' = Some (5 / 10)"
  "map_of move_thresholds ''dodge'' = Some (5 / 10)"
  "map_of move_thresholds ''guard'' = Some (5 / 10)"
  by (simp_all add: move_thresholds_def)

subsection \<open>The ids of the participants are pairwise different\<close>

text \<open>The list of participants stands for a dict, so no id occurs twice in it. Every
  operation keeps it so, which is what lets an update under an id stand for the mutation of
  the one object the engine holds a reference to.\<close>

lemma all_evolve_ident: "list_all2 evolves ps qs \<Longrightarrow> map ident qs = map ident ps"
  by (induction rule: list_all2_induct) (simp_all add: evolves_score)

lemma lookup_None_ident: "lookup k ps = None \<Longrightarrow> k \<notin> ident ` set ps"
  by (auto simp: lookup_def find_None_iff)

lemma map_ident_update_const:
  "ident q = k \<Longrightarrow> map ident (update_player k (\<lambda>_. q) ps) = map ident ps"
  by (induction ps) auto

lemma step_distinct:
  assumes "distinct (map ident (players g))"
  shows "distinct (map ident (players (step x g)))"
proof (cases x)
  case (Register k nm)
  show ?thesis
  proof (cases "lookup k (players g)")
    case None
    then show ?thesis
      using Register assms lookup_None_ident [OF None]
      by (simp add: add_player_def Let_def new_player_def)
  next
    case (Some old)
    then show ?thesis
      using Register assms
      by (simp add: add_player_def Let_def map_ident_update_const new_player_def)
  qed
next
  case (Deregister k)
  then show ?thesis
    using assms by (auto simp: remove_player_def distinct_map_filter split: option.splits)
next
  case (Start now)
  then show ?thesis using assms by (auto simp: start_game_def comp_def)
next
  case Pause
  then show ?thesis using assms by (simp add: pause_game_def)
next
  case Resume
  then show ?thesis using assms by (simp add: resume_game_def)
next
  case Finish
  then show ?thesis using assms by (simp add: end_game_def)
next
  case (ProcessBatch t0 t1 t2 xs)
  then show ?thesis
    using all_evolve_ident [OF process_actions_evolves [of g t0 t1 t2 xs]] assms by simp
next
  case Snapshot
  then show ?thesis using assms by simp
next
  case Reset
  then show ?thesis by (simp add: reset_def)
qed

lemma run_distinct:
  "distinct (map ident (players g)) \<Longrightarrow> distinct (map ident (players (run ops g)))"
proof (induction ops arbitrary: g)
  case Nil
  then show ?case by simp
next
  case (Cons x ops)
  then show ?case using step_distinct [of g x] by simp
qed

lemma reachable_distinct: "distinct (map ident (players (run ops init_game)))"
  by (rule run_distinct) (simp add: init_game_def)

section \<open>The claims\<close>

text \<open>
  Claim C1. For an offensive move (jab, cross, hook, uppercut) of a registered actor against
  an existing opponent, the damage the engine computes is the damage of the reference
  definition \<open>spec_damage\<close>: floor of base damage times confidence, floored again with the
  block effectiveness against a blocking opponent, zero against a dodging opponent, never
  negative. The opponent's health drops by that damage, stopping at 0; the actor's score
  grows by it. (The engine truncates towards zero where the reference floors; after the
  final clamp at 0 the two agree for every confidence.)
\<close>

theorem C1_damage_follows_reference:
  assumes mv: "MoveType_of (move_type a) = Some mt"
    and off: "mt \<in> {JAB, CROSS, HOOK, UPPERCUT}"
    and actor: "lookup (player_id a) (players g) = Some actor"
    and opp: "get_opponent g (player_id a) = Some opp"
  shows "calculate_damage mt (confidence a) opp
           = spec_damage mt (confidence a) (is_blocking opp) (is_dodging opp)
       \<and> snd (process_single_action a g) = None
       \<and> lookup (ident opp) (players (fst (process_single_action a g)))
           = Some (opp\<lparr>health := max 0 (health opp
                 - spec_damage mt (confidence a) (is_blocking opp) (is_dodging opp))\<rparr>)
       \<and> lookup (player_id a) (players (fst (process_single_action a g)))
           = Some (actor\<lparr>last_move := Some (move_type a), last_move_time := Some (timestamp a),
                 score := score actor
                   + spec_damage mt (confidence a) (is_blocking opp) (is_dodging opp)\<rparr>)"
proof -
  let ?k = "player_id a"
  let ?rec = "\<lambda>p. p\<lparr>last_move := Some (move_type a), last_move_time := Some (timestamp a)\<rparr>"
  let ?g1 = "g\<lparr>players := update_player ?k ?rec (players g)\<rparr>"
  let ?d = "calculate_damage mt (confidence a) opp"
  let ?hit = "\<lambda>p. p\<lparr>health := max 0 (health p - ?d)\<rparr>"
  let ?pts = "\<lambda>p. p\<lparr>score := score p + ?d\<rparr>"
  have d: "?d = spec_damage mt (confidence a) (is_blocking opp) (is_dodging opp)"
    by (rule calculate_damage_spec)
  have ne: "ident opp \<noteq> ?k" and lo: "lookup (ident opp) (players g) = Some opp"
    using get_opponent_Some [OF opp] by simp_all
  have ak: "ident actor = ?k" using actor by (rule lookup_Some_ident)
  have opp1: "get_opponent ?g1 ?k = Some opp"
    using opp by (simp add: get_opponent_update_actor)
  have notdef: "mt \<notin> {BLOCK, DODGE, GUARD}" using off by auto
  have a1: "lookup ?k (players ?g1) = Some (?rec actor)"
    using actor ak by (simp add: lookup_update_same)
  have o1: "lookup (ident opp) (players ?g1) = Some opp"
    using lo ne by (simp add: lookup_update_other)
  let ?g2 = "apply_damage (ident opp) ?d ?g1"
  have a2: "lookup ?k (players ?g2) = Some (?rec actor)"
    using a1 ne by (simp add: apply_damage_def lookup_update_other)
  have o2: "lookup (ident opp) (players ?g2) = Some (?hit opp)"
    using o1 by (simp add: apply_damage_def lookup_update_same)
  let ?g3 = "?g2\<lparr>players := update_player ?k ?pts (players ?g2)\<rparr>"
  have a3: "lookup ?k (players ?g3) = Some (?pts (?rec actor))"
    using a2 ak by (simp add: lookup_update_same)
  have o3: "lookup (ident opp) (players ?g3) = Some (?hit opp)"
    using o2 ne by (simp add: lookup_update_other)
  have res: "process_single_action a g = (if ?d > 0 then ?g3 else ?g2, None)"
    using actor mv off notdef opp1
    by (simp add: process_single_action_def Let_def del: insert_iff)
  have zero: "\<not> ?d > 0 \<Longrightarrow> ?d = 0"
    using calculate_damage_nonneg [of mt "confidence a" opp] by simp
  show ?thesis
  proof (cases "?d > 0")
    case True
    then show ?thesis using res a3 o3 d by simp
  next
    case False
    then have "?d = 0" by (rule zero)
    then show ?thesis using res a2 o2 d False by simp
  qed
qed

theorem C1_damage_follows_reference_witness:
  "MoveType_of (move_type (scenario_action ''P1'' ''hook'' 1)) = Some HOOK
   \<and> HOOK \<in> {JAB, CROSS, HOOK, UPPERCUT}
   \<and> lookup (player_id (scenario_action ''P1'' ''hook'' 1))
        (players (scenario_game [scenario_player ''P1'' 100 0 False False,
                                 scenario_player ''P2'' 100 0 True False]))
       = Some (scenario_player ''P1'' 100 0 False False)
   \<and> get_opponent (scenario_game [scenario_player ''P1'' 100 0 False False,
                                  scenario_player ''P2'' 100 0 True False])
        (player_id (scenario_action ''P1'' ''hook'' 1))
       = Some (scenario_player ''P2'' 100 0 True False)
   \<and> calculate_damage HOOK 1 (scenario_player ''P2'' 100 0 True False) = 14
   \<and> lookup ''P2'' (players (fst (process_single_action (scenario_action ''P1'' ''hook'' 1)
        (scenario_game [scenario_player ''P1'' 100 0 False False,
                        scenario_player ''P2'' 100 0 True False]))))
       = Some (scenario_player ''P2'' 86 0 True False)"
proof -
  let ?a = "scenario_action ''P1'' ''hook'' 1"
  let ?p1 = "scenario_player ''P1'' 100 0 False False"
  let ?p2 = "scenario_player ''P2'' 100 0 True False"
  let ?g = "scenario_game [?p1, ?p2]"
  have h1: "MoveType_of (move_type ?a) = Some HOOK"
    by (simp add: scenario_action_def MoveType_of_def)
  have h2: "HOOK \<in> {JAB, CROSS, HOOK, UPPERCUT}" by simp
  have h3: "lookup (player_id ?a) (players ?g) = Some ?p1"
    by (simp add: scenario_action_def scenario_game_def scenario_player_def lookup_def)
  have h4: "get_opponent ?g (player_id ?a) = Some ?p2"
    by (simp add: scenario_action_def scenario_game_def scenario_player_def lookup_def
        get_opponent_def)
  have v: "spec_damage HOOK 1 True False = 14"
    by (simp add: spec_damage_def spec_base_damage_def spec_effectiveness_def)
  show ?thesis
    using C1_damage_follows_reference [OF h1 h2 h3 h4] h1 h3 h4 v
    by (simp add: scenario_player_def scenario_action_def)
qed

text \<open>
  Claim C2. In every state that a sequence of operations (register, deregister, start,
  pause, resume, finish, processBatch, also snapshot and reset, and also when an operation
  raises) reaches from the initial match, every participant's health is an integer from 0
  to 100.
\<close>

theorem C2_health_stays_in_range:
  "\<forall>p\<in>set (players (run ops init_game)). 0 \<le> health p \<and> health p \<le> 100"
  by (rule run_health) (simp add: init_game_def)

theorem C2_health_stays_in_range_witness:
  "players (run [Register ''P1'' ''Ann'', Register ''P2'' ''Bob'', Start 1000,
       ProcessBatch 1001 1002 1003 [scenario_data ''P1'' ''jab'' 0.9]] init_game)
     = [\<lparr>ident = ''P1'', name = ''Ann'', health = 100, score = 9, last_move = Some ''jab'',
         last_move_time = Some 1001, is_blocking = False, is_dodging = False\<rparr>,
        \<lparr>ident = ''P2'', name = ''Bob'', health = 91, score = 0, last_move = None,
         last_move_time = None, is_blocking = False, is_dodging = False\<rparr>]
   \<and> 0 \<le> health \<lparr>ident = ''P2'', name = ''Bob'', health = 91, score = 0, last_move = None,
         last_move_time = None, is_blocking = False, is_dodging = False\<rparr>
   \<and> health \<lparr>ident = ''P2'', name = ''Bob'', health = 91, score = 0, last_move = None,
         last_move_time = None, is_blocking = False, is_dodging = False\<rparr> \<le> 100"
proof -
  let ?ops = "[Register ''P1'' ''Ann'', Register ''P2'' ''Bob'', Start 1000,
               ProcessBatch 1001 1002 1003 [scenario_data ''P1'' ''jab'' 0.9]]"
  let ?p2 = "\<lparr>ident = ''P2'', name = ''Bob'', health = 91, score = 0, last_move = None,
         last_move_time = None, is_blocking = False, is_dodging = False\<rparr>"
  have ps: "players (run ?ops init_game)
      = [\<lparr>ident = ''P1'', name = ''Ann'', health = 100, score = 9, last_move = Some ''jab'',
          last_move_time = Some 1001, is_blocking = False, is_dodging = False\<rparr>, ?p2]"
    by (simp add: init_game_def add_player_def new_player_def start_game_def
        process_actions_def process_single_action_def get_opponent_def lookup_def
        calculate_damage_def apply_damage_def move_damage_def py_int_def MoveType_of_def
        check_game_conditions_def scenario_data_def Let_def)
  then have "?p2 \<in> set (players (run ?ops init_game))"
    by (simp only: list.set insertI1 insertI2)
  with C2_health_stays_in_range [of ?ops]
  have "0 \<le> health ?p2 \<and> health ?p2 \<le> 100"
    by (rule bspec)
  then have "0 \<le> health ?p2" and "health ?p2 \<le> 100"
    by (rule conjunct1, rule conjunct2)
  with ps show ?thesis
    by (intro conjI)
qed

text \<open>
  Claim C3. When the events of a batch have been applied in PLAYING phase and some
  participant has health \<open>\<le> 0\<close> (\<open>ko\<close> is the first such in iteration order), the same call
  finishes the match: the phase is FINISHED; the first participant in iteration order
  whose id differs from \<open>ko\<close>'s has its score raised by exactly 50 and nobody else is touched
  (nobody at all when there is no other participant); the round-timer check does not run:
  round counter, match-start timestamp and every health are as the events left them.
\<close>

theorem C3_knockout_finishes_match:
  assumes playing: "state g = PLAYING"
    and batch: "process_action_list t0 actions (g\<lparr>last_update_time := Some t0\<rparr>) = (g1, None)"
    and first_ko: "players g1 = before @ ko # after"
      "\<forall>p\<in>set before. 0 < health p" "health ko \<le> 0"
  shows "snd (process_actions t0 t1 t2 actions g) = None
       \<and> state (fst (process_actions t0 t1 t2 actions g)) = FINISHED
       \<and> fst (process_actions t0 t1 t2 actions g)
           = g1\<lparr>state := FINISHED, players := players (fst (process_actions t0 t1 t2 actions g))\<rparr>
       \<and> map health (players (fst (process_actions t0 t1 t2 actions g))) = map health (players g1)
       \<and> ((\<forall>p\<in>set (players g1). ident p = ident ko)
            \<longrightarrow> players (fst (process_actions t0 t1 t2 actions g)) = players g1)
       \<and> (\<forall>pre w post. players g1 = pre @ w # post \<and> (\<forall>p\<in>set pre. ident p = ident ko)
              \<and> ident w \<noteq> ident ko
            \<longrightarrow> players (fst (process_actions t0 t1 t2 actions g))
                  = pre @ w\<lparr>score := score w + 50\<rparr> # post)"
proof -
  let ?g' = "fst (process_actions t0 t1 t2 actions g)"
  have fk: "find (\<lambda>p. health p \<le> 0) (players g1) = Some ko"
    using first_ko by (intro find_first [of _ before ko after]) auto
  have res: "process_actions t0 t1 t2 actions g = (handle_knockout ko g1, None)"
    using playing batch fk by (simp add: process_actions_def check_game_conditions_def)
  have alone: "players (handle_knockout ko g1) = players g1"
    if "\<forall>p\<in>set (players g1). ident p = ident ko"
    using find_none [of "players g1" "\<lambda>p. ident p \<noteq> ident ko"] that
    by (simp add: handle_knockout_def)
  have other: "players (handle_knockout ko g1) = pre @ w\<lparr>score := score w + 50\<rparr> # post"
    if "players g1 = pre @ w # post" "\<forall>p\<in>set pre. ident p = ident ko" "ident w \<noteq> ident ko"
    for pre w post
  proof -
    have "find (\<lambda>p. ident p \<noteq> ident ko) (players g1) = Some w"
      using that by (intro find_first [of _ pre w post]) auto
    moreover have "update_player (ident w) (\<lambda>p. p\<lparr>score := score p + 50\<rparr>) (players g1)
        = pre @ w\<lparr>score := score w + 50\<rparr> # post"
      using that by (intro update_player_first) auto
    ultimately show ?thesis by (simp add: handle_knockout_def)
  qed
  have hl: "map health (players (handle_knockout ko g1)) = map health (players g1)"
    by (simp add: handle_knockout_def map_health_update split: option.splits)
  have fr: "handle_knockout ko g1
      = g1\<lparr>state := FINISHED, players := players (handle_knockout ko g1)\<rparr>"
    by (simp add: handle_knockout_def split: option.splits)
  have st: "state (handle_knockout ko g1) = FINISHED"
    by (simp add: handle_knockout_def split: option.splits)
  show ?thesis
    unfolding res fst_conv snd_conv using alone other hl fr st by blast
qed

theorem C3_knockout_finishes_match_witness:
  "state (scenario_game [scenario_player ''P1'' 5 30 False False,
                          scenario_player ''P2'' 100 20 False False]) = PLAYING
   \<and> process_action_list 1001 [scenario_data ''P2'' ''jab'' 1]
        ((scenario_game [scenario_player ''P1'' 5 30 False False,
                         scenario_player ''P2'' 100 20 False False])\<lparr>last_update_time := Some 1001\<rparr>)
       = ((scenario_game
            [scenario_player ''P1'' 0 30 False False,
             (scenario_player ''P2'' 100 30 False False)
               \<lparr>last_move := Some ''jab'', last_move_time := Some 1001\<rparr>])
           \<lparr>last_update_time := Some 1001\<rparr>, None)
   \<and> health (scenario_player ''P1'' 0 30 False False) \<le> 0
   \<and> state (fst (process_actions 1001 2000 2001 [scenario_data ''P2'' ''jab'' 1]
        (scenario_game [scenario_player ''P1'' 5 30 False False,
                        scenario_player ''P2'' 100 20 False False]))) = FINISHED
   \<and> players (fst (process_actions 1001 2000 2001 [scenario_data ''P2'' ''jab'' 1]
        (scenario_game [scenario_player ''P1'' 5 30 False False,
                        scenario_player ''P2'' 100 20 False False])))
       = [scenario_player ''P1'' 0 30 False False,
          (scenario_player ''P2'' 100 80 False False)
            \<lparr>last_move := Some ''jab'', last_move_time := Some 1001\<rparr>]"
proof -
  let ?g = "scenario_game [scenario_player ''P1'' 5 30 False False,
                           scenario_player ''P2'' 100 20 False False]"
  let ?ko = "scenario_player ''P1'' 0 30 False False"
  let ?w = "(scenario_player ''P2'' 100 30 False False)
              \<lparr>last_move := Some ''jab'', last_move_time := Some 1001\<rparr>"
  let ?g1 = "(scenario_game [?ko, ?w])\<lparr>last_update_time := Some 1001\<rparr>"
  have pl: "state ?g = PLAYING" by (simp add: scenario_game_def)
  have b: "process_action_list 1001 [scenario_data ''P2'' ''jab'' 1]
      (?g\<lparr>last_update_time := Some 1001\<rparr>) = (?g1, None)"
    by (simp add: process_single_action_def get_opponent_def lookup_def
        calculate_damage_def apply_damage_def move_damage_def py_int_def MoveType_of_def
        scenario_data_def scenario_game_def scenario_player_def Let_def)
  have p: "players ?g1 = [] @ ?ko # [?w]" by (simp add: scenario_game_def)
  have h1: "\<forall>p\<in>set []. 0 < health p" by simp
  have h2: "health ?ko \<le> 0" by (simp add: scenario_player_def)
  have i: "ident ?w \<noteq> ident ?ko" by (simp add: scenario_player_def)
  have q: "players ?g1 = [?ko] @ ?w # [] \<and> (\<forall>p\<in>set [?ko]. ident p = ident ?ko)
      \<and> ident ?w \<noteq> ident ?ko"
    by (simp add: scenario_game_def scenario_player_def)
  note c = C3_knockout_finishes_match [OF pl b p h1 h2, of 2000 2001]
  from c have s: "state (fst (process_actions 1001 2000 2001 [scenario_data ''P2'' ''jab'' 1] ?g))
      = FINISHED"
    by blast
  from c q have "players (fst (process_actions 1001 2000 2001 [scenario_data ''P2'' ''jab'' 1] ?g))
      = [?ko] @ ?w\<lparr>score := score ?w + 50\<rparr> # []"
    by blast
  then have w: "players (fst (process_actions 1001 2000 2001 [scenario_data ''P2'' ''jab'' 1] ?g))
      = [?ko, (scenario_player ''P2'' 100 80 False False)
                \<lparr>last_move := Some ''jab'', last_move_time := Some 1001\<rparr>]"
    by (simp add: scenario_player_def)
  show ?thesis
    using pl b h2 s w by (intro conjI)
qed

text \<open>
  Claim C4, as stated: whenever a round ends on the timer, the top-ranked participant's
  score increases by exactly 25. With a single participant (with whom a match can be
  started) the round ends, the round counter advances and health is reset, and the
  participant's score stays as it is.
\<close>

theorem C4_single_participant_gets_no_bonus:
  "map score (players (scenario_game [scenario_player ''P1'' 80 50 False False])) = [50]
   \<and> game_start_time (scenario_game [scenario_player ''P1'' 80 50 False False]) = Some 1000
   \<and> current_round (scenario_game [scenario_player ''P1'' 80 50 False False]) = 1
   \<and> snd (process_actions 1200 1200 1201 []
            (scenario_game [scenario_player ''P1'' 80 50 False False])) = None
   \<and> current_round (fst (process_actions 1200 1200 1201 []
            (scenario_game [scenario_player ''P1'' 80 50 False False]))) = 2
   \<and> map health (players (fst (process_actions 1200 1200 1201 []
            (scenario_game [scenario_player ''P1'' 80 50 False False])))) = [100]
   \<and> map score (players (fst (process_actions 1200 1200 1201 []
            (scenario_game [scenario_player ''P1'' 80 50 False False])))) = [50]"
  by (simp add: process_actions_def check_game_conditions_def handle_round_end_def
      scenario_game_def scenario_player_def Let_def)

text \<open>
  Claim C4, amended. Let the events of a batch have been applied in PLAYING phase without
  an error, leaving every participant with positive health, and let the match-start
  timestamp be set and not 0.0 (the engine tests it for truthiness) with at least
  \<^verbatim>\<open>round_time\<close> seconds elapsed. Then the round ends. (The ids of the participants are
  pairwise different, as in every reachable match.) With at least two participants the
  winner \<open>w\<close> is the first participant in iteration order among those of greatest health
  and, among these, greatest score: everybody before \<open>w\<close> ranks strictly lower, everybody
  after \<open>w\<close> ranks lower or equal; \<open>w\<close>'s score grows by exactly 25 and no other score changes.
  With fewer than two participants nobody gets a bonus. The round counter grows by one. If
  it now exceeds \<^verbatim>\<open>max_rounds\<close> the phase is FINISHED and nothing else changes; otherwise
  every participant's health is 100 and both posture flags are cleared, score and last move
  stay, and the match-start timestamp is the clock reading of the new round.
\<close>

theorem C4_round_end_on_timer:
  assumes playing: "state g = PLAYING"
    and batch: "process_action_list t0 actions (g\<lparr>last_update_time := Some t0\<rparr>) = (g1, None)"
    and no_ko: "\<forall>p\<in>set (players g1). 0 < health p"
    and started: "game_start_time g = Some start" "start \<noteq> 0"
    and elapsed: "of_int (round_time g) \<le> t_check - start"
    and ids: "distinct (map ident (players g))"
  shows "snd (process_actions t0 t_check t_round actions g) = None
       \<and> (\<exists>ranked.
            (if length (players g1) < 2 then ranked = players g1
             else \<exists>pre w post. players g1 = pre @ w # post
                    \<and> (\<forall>p\<in>set pre. health p < health w
                                      \<or> (health p = health w \<and> score p < score w))
                    \<and> (\<forall>p\<in>set post. health p < health w
                                       \<or> (health p = health w \<and> score p \<le> score w))
                    \<and> ranked = pre @ w\<lparr>score := score w + 25\<rparr> # post)
          \<and> fst (process_actions t0 t_check t_round actions g)
              = (if current_round g + 1 > max_rounds g
                 then g1\<lparr>state := FINISHED, current_round := current_round g + 1,
                         players := ranked\<rparr>
                 else g1\<lparr>current_round := current_round g + 1,
                         game_start_time := Some t_round,
                         players := map (\<lambda>p. p\<lparr>health := 100, is_blocking := False,
                                                is_dodging := False\<rparr>) ranked\<rparr>))"
proof -
  let ?key = "\<lambda>p. (health p, score p)"
  let ?bonus = "\<lambda>p. p\<lparr>score := score p + 25\<rparr>"
  let ?fresh = "\<lambda>p. p\<lparr>health := 100, is_blocking := False, is_dodging := False\<rparr>"
  have fr: "g1 = g\<lparr>last_update_time := Some t0, players := players g1\<rparr>"
    using process_action_list_frame [of t0 actions "g\<lparr>last_update_time := Some t0\<rparr>"] batch
    by simp
  have f1: "game_start_time g1 = Some start" "round_time g1 = round_time g"
    "current_round g1 = current_round g" "max_rounds g1 = max_rounds g"
    by (subst fr, simp add: started)+
  have ids1: "distinct (map ident (players g1))"
    using all_evolve_ident [OF process_action_list_evolves
        [of "g\<lparr>last_update_time := Some t0\<rparr>" t0 actions]] batch ids
    by simp
  have nf: "find (\<lambda>p. health p \<le> 0) (players g1) = None"
    using no_ko by (intro find_none) auto
  have chk: "check_game_conditions t_check t_round g1 = handle_round_end t_round g1"
    using nf f1 started(2) elapsed by (simp add: check_game_conditions_def)
  have res: "process_actions t0 t_check t_round actions g = (handle_round_end t_round g1, None)"
    using playing batch chk by (simp add: process_actions_def)
  define ranked where "ranked =
    (if length (players g1) < 2 then players g1
     else (case sort_reverse ?key (players g1) of
             winner # _ \<Rightarrow> update_player (ident winner) ?bonus (players g1)
           | [] \<Rightarrow> players g1))"
  have hre: "handle_round_end t_round g1
      = (if current_round g + 1 > max_rounds g
         then g1\<lparr>state := FINISHED, current_round := current_round g + 1, players := ranked\<rparr>
         else g1\<lparr>current_round := current_round g + 1, game_start_time := Some t_round,
                 players := map ?fresh ranked\<rparr>)"
    unfolding ranked_def handle_round_end_def Let_def
    by (cases "sort_reverse ?key (players g1)") (simp_all add: f1)
  have rk: "\<exists>pre w post. players g1 = pre @ w # post
      \<and> (\<forall>p\<in>set pre. health p < health w \<or> (health p = health w \<and> score p < score w))
      \<and> (\<forall>p\<in>set post. health p < health w \<or> (health p = health w \<and> score p \<le> score w))
      \<and> ranked = pre @ w\<lparr>score := score w + 25\<rparr> # post"
    if two: "\<not> length (players g1) < 2"
  proof -
    from two have "players g1 \<noteq> []" by auto
    from sort_reverse_winner [OF this, of ?key]
    obtain pre w post where xs: "players g1 = pre @ w # post"
      and hd: "sort_reverse ?key (players g1) = w # tl (sort_reverse ?key (players g1))"
      and lo: "\<forall>p\<in>set pre. ?key p < ?key w" and le: "\<forall>p\<in>set post. ?key p \<le> ?key w"
      by blast
    have "ident w \<notin> ident ` set pre"
      using ids1 by (subst (asm) xs) simp
    then have "\<forall>p\<in>set pre. ident p \<noteq> ident w"
      by (metis imageI)
    then have up: "update_player (ident w) ?bonus (players g1) = pre @ ?bonus w # post"
      using xs by (intro update_player_first) auto
    have "ranked = pre @ ?bonus w # post"
      unfolding ranked_def using two up by (subst hd) simp
    moreover have "\<forall>p\<in>set pre. health p < health w \<or> (health p = health w \<and> score p < score w)"
      using lo by auto
    moreover have "\<forall>p\<in>set post. health p < health w \<or> (health p = health w \<and> score p \<le> score w)"
      using le by auto
    ultimately show ?thesis using xs by blast
  qed
  have small: "ranked = players g1" if "length (players g1) < 2"
    using that by (simp add: ranked_def)
  show ?thesis
    unfolding res fst_conv snd_conv hre
    using rk small by (intro conjI refl exI [of _ ranked]) auto
qed


theorem C4_round_end_on_timer_witness:
  "state (scenario_game [scenario_player ''P1'' 80 50 False False,
                          scenario_player ''P2'' 80 40 True False]) = PLAYING
   \<and> game_start_time (scenario_game [scenario_player ''P1'' 80 50 False False,
                          scenario_player ''P2'' 80 40 True False]) = Some 1000
   \<and> distinct (map ident [scenario_player ''P1'' 80 50 False False,
                          scenario_player ''P2'' 80 40 True False])
   \<and> process_actions 1180 1180 1181 []
        (scenario_game [scenario_player ''P1'' 80 50 False False,
                        scenario_player ''P2'' 80 40 True False])
       = ((scenario_game [scenario_player ''P1'' 100 75 False False,
                          scenario_player ''P2'' 100 40 False False])
            \<lparr>last_update_time := Some 1180, current_round := 2, game_start_time := Some 1181\<rparr>,
          None)"
proof -
  let ?p1 = "scenario_player ''P1'' 80 50 False False"
  let ?p2 = "scenario_player ''P2'' 80 40 True False"
  let ?ps = "[?p1, ?p2]"
  let ?g = "scenario_game ?ps"
  let ?g1 = "?g\<lparr>last_update_time := Some 1180\<rparr>"
  let ?fresh = "\<lambda>p. p\<lparr>health := 100, is_blocking := False, is_dodging := False\<rparr>"
  have pl: "state ?g = PLAYING" by (simp add: scenario_game_def)
  have b: "process_action_list 1180 [] ?g1 = (?g1, None)" by simp
  have nk: "\<forall>p\<in>set (players ?g1). 0 < health p"
    by (simp add: scenario_game_def scenario_player_def)
  have st: "game_start_time ?g = Some 1000" "(1000::real) \<noteq> 0" by (simp_all add: scenario_game_def)
  have el: "of_int (round_time ?g) \<le> (1180::real) - 1000" by (simp add: scenario_game_def)
  have ds: "distinct (map ident (players ?g))"
    by (simp add: scenario_game_def scenario_player_def)
  have pg: "players ?g1 = ?ps" "length ?ps = 2" "current_round ?g = 1" "max_rounds ?g = 3"
    by (simp_all add: scenario_game_def)
  note c = C4_round_end_on_timer [OF pl b nk st el ds, of 1181]
  from c have ok: "snd (process_actions 1180 1180 1181 [] ?g) = None"
    by (rule conjunct1)
  from c obtain pre w post where dec: "?ps = pre @ w # post"
    and lo: "\<forall>p\<in>set pre. health p < health w \<or> (health p = health w \<and> score p < score w)"
    and res: "fst (process_actions 1180 1180 1181 [] ?g)
       = ?g1\<lparr>current_round := 2, game_start_time := Some 1181,
             players := map ?fresh (pre @ w\<lparr>score := score w + 25\<rparr> # post)\<rparr>"
    unfolding pg by (auto simp: pg)
  have first: "pre = []"
  proof (cases pre)
    case Nil
    then show ?thesis .
  next
    case (Cons a pre')
    then have a: "a = ?p1" and rest: "[?p2] = pre' @ w # post" using dec by simp_all
    from rest have "w = ?p2" by (cases pre') simp_all
    moreover have "a \<in> set pre" using Cons by simp
    ultimately have "health ?p1 < health ?p2 \<or> (health ?p1 = health ?p2 \<and> score ?p1 < score ?p2)"
      using lo a by blast
    then show ?thesis by (simp add: scenario_player_def)
  qed
  then have "w = ?p1" "post = [?p2]" using dec by simp_all
  then have "fst (process_actions 1180 1180 1181 [] ?g)
      = (scenario_game [scenario_player ''P1'' 100 75 False False,
                        scenario_player ''P2'' 100 40 False False])
          \<lparr>last_update_time := Some 1180, current_round := 2, game_start_time := Some 1181\<rparr>"
    using res first by (simp add: scenario_game_def scenario_player_def)
  then have r: "process_actions 1180 1180 1181 [] ?g
      = ((scenario_game [scenario_player ''P1'' 100 75 False False,
                         scenario_player ''P2'' 100 40 False False])
           \<lparr>last_update_time := Some 1180, current_round := 2, game_start_time := Some 1181\<rparr>,
         None)"
    using ok by (simp add: prod_eq_iff)
  have d2: "distinct (map ident ?ps)" using ds by (simp add: scenario_game_def)
  show ?thesis
    using pl st(1) d2 r by (intro conjI)
qed

text \<open>
  Claim C5, as stated: every failing operation leaves the match unchanged, and a batch item
  with an unknown move name fails with an error after which the match is as it was before
  the call. The engine keeps what it did before the failure: in the batch below the jab has
  landed and the update timestamp is set when the second item raises. From an unregistered
  actor the unknown name raises nothing and is skipped.
\<close>

theorem C5_failed_batch_keeps_earlier_effects:
  "snd (process_actions 1001 1002 1003
          [scenario_data ''P1'' ''jab'' 1, scenario_data ''P1'' ''kick'' 1]
          (scenario_game [scenario_player ''P1'' 100 0 False False,
                          scenario_player ''P2'' 100 0 False False]))
     = Some (InvalidMoveType ''kick'')
   \<and> map health (players (fst (process_actions 1001 1002 1003
          [scenario_data ''P1'' ''jab'' 1, scenario_data ''P1'' ''kick'' 1]
          (scenario_game [scenario_player ''P1'' 100 0 False False,
                          scenario_player ''P2'' 100 0 False False])))) = [100, 90]
   \<and> map health (players (scenario_game [scenario_player ''P1'' 100 0 False False,
                          scenario_player ''P2'' 100 0 False False])) = [100, 100]
   \<and> last_update_time (fst (process_actions 1001 1002 1003
          [scenario_data ''P1'' ''jab'' 1, scenario_data ''P1'' ''kick'' 1]
          (scenario_game [scenario_player ''P1'' 100 0 False False,
                          scenario_player ''P2'' 100 0 False False]))) = Some 1001
   \<and> last_update_time (scenario_game [scenario_player ''P1'' 100 0 False False,
                          scenario_player ''P2'' 100 0 False False]) = None
   \<and> snd (process_actions 1001 1002 1003 [scenario_data ''P3'' ''kick'' 1]
          (scenario_game [scenario_player ''P1'' 100 0 False False,
                          scenario_player ''P2'' 100 0 False False])) = None"
  by (simp add: process_actions_def process_single_action_def get_opponent_def lookup_def
      calculate_damage_def apply_damage_def move_damage_def py_int_def MoveType_of_def
      check_game_conditions_def scenario_data_def scenario_game_def scenario_player_def Let_def)

text \<open>
  Claim C5, amended. \<^verbatim>\<open>start_game\<close> without participants raises and leaves the match
  unchanged. A batch item with an unknown move name is skipped without an error when its
  actor is not registered. When its actor is registered it raises the \<^verbatim>\<open>ValueError\<close> of the
  enum, and the item itself changes nothing; the call ends there, in the state the items
  before it have produced: the update timestamp is set, their effects on the participants
  stay, the other fields of the match are those from before the call.
\<close>

theorem C5_failure_keeps_state_of_the_raise:
  "(players g = [] \<longrightarrow> start_game now g = (g, Some NeedPlayers))
   \<and> (lookup (player_id a) (players g) = None \<longrightarrow> process_single_action a g = (g, None))
   \<and> (\<forall>p. lookup (player_id a) (players g) = Some p \<and> MoveType_of (move_type a) = None
        \<longrightarrow> process_single_action a g = (g, Some (InvalidMoveType (move_type a))))
   \<and> (\<forall>g1 m c p.
         state g = PLAYING
         \<and> process_action_list t0 pre (g\<lparr>last_update_time := Some t0\<rparr>) = (g1, None)
         \<and> ad_move bad = Some m \<and> ad_confidence bad = Some c \<and> MoveType_of m = None
         \<and> lookup (case ad_player_id bad of None \<Rightarrow> ''player1'' | Some k \<Rightarrow> k) (players g1) = Some p
        \<longrightarrow> process_actions t0 t1 t2 (pre @ bad # rest) g = (g1, Some (InvalidMoveType m))
          \<and> g1 = g\<lparr>last_update_time := Some t0, players := players g1\<rparr>)"
proof -
  have batch: "process_actions t0 t1 t2 (pre @ bad # rest) g = (g1, Some (InvalidMoveType m))
      \<and> g1 = g\<lparr>last_update_time := Some t0, players := players g1\<rparr>"
    if pl: "state g = PLAYING"
      and pre: "process_action_list t0 pre (g\<lparr>last_update_time := Some t0\<rparr>) = (g1, None)"
      and m: "ad_move bad = Some m" and c: "ad_confidence bad = Some c"
      and inv: "MoveType_of m = None"
      and act: "lookup (case ad_player_id bad of None \<Rightarrow> ''player1'' | Some k \<Rightarrow> k) (players g1) = Some p"
    for g1 m c p
  proof -
    let ?a = "\<lparr>player_id = (case ad_player_id bad of None \<Rightarrow> ''player1'' | Some k \<Rightarrow> k),
               move_type = m, confidence = c,
               timestamp = (case ad_timestamp bad of None \<Rightarrow> t0 | Some t \<Rightarrow> t)\<rparr>"
    have "process_single_action ?a g1 = (g1, Some (InvalidMoveType m))"
      using process_single_action_invalid [of ?a g1 p] act inv by simp
    then have "process_action_list t0 (bad # rest) g1 = (g1, Some (InvalidMoveType m))"
      using m c by simp
    then have "process_action_list t0 (pre @ bad # rest) (g\<lparr>last_update_time := Some t0\<rparr>)
        = (g1, Some (InvalidMoveType m))"
      using pre by (simp only: process_action_list_append split: prod.splits option.splits) simp
    then have one: "process_actions t0 t1 t2 (pre @ bad # rest) g = (g1, Some (InvalidMoveType m))"
      using pl by (simp add: process_actions_def)
    have two: "g1 = g\<lparr>last_update_time := Some t0, players := players g1\<rparr>"
      using process_action_list_frame [of t0 pre "g\<lparr>last_update_time := Some t0\<rparr>"] pre by simp
    show ?thesis using one two by (rule conjI)
  qed
  show ?thesis
    using batch
    by (auto simp: start_game_def process_single_action_unknown process_single_action_invalid)
qed


theorem C5_failure_keeps_state_of_the_raise_witness:
  "players init_game = []
   \<and> start_game 5 init_game = (init_game, Some NeedPlayers)
   \<and> lookup ''P3'' (players (scenario_game [scenario_player ''P1'' 100 0 False False,
                                           scenario_player ''P2'' 100 0 False False])) = None
   \<and> process_single_action (scenario_action ''P3'' ''kick'' 1)
        (scenario_game [scenario_player ''P1'' 100 0 False False,
                        scenario_player ''P2'' 100 0 False False])
       = (scenario_game [scenario_player ''P1'' 100 0 False False,
                         scenario_player ''P2'' 100 0 False False], None)
   \<and> MoveType_of ''kick'' = None
   \<and> process_actions 1001 1002 1003
        ([scenario_data ''P1'' ''jab'' 1] @ scenario_data ''P1'' ''kick'' 1 # [])
        (scenario_game [scenario_player ''P1'' 100 0 False False,
                        scenario_player ''P2'' 100 0 False False])
       = (fst (process_action_list 1001 [scenario_data ''P1'' ''jab'' 1]
                 ((scenario_game [scenario_player ''P1'' 100 0 False False,
                                  scenario_player ''P2'' 100 0 False False])
                    \<lparr>last_update_time := Some 1001\<rparr>)),
          Some (InvalidMoveType ''kick''))"
proof -
  let ?g = "scenario_game [scenario_player ''P1'' 100 0 False False,
                           scenario_player ''P2'' 100 0 False False]"
  let ?pre = "[scenario_data ''P1'' ''jab'' 1]"
  let ?bad = "scenario_data ''P1'' ''kick'' 1"
  let ?g1 = "fst (process_action_list 1001 ?pre (?g\<lparr>last_update_time := Some 1001\<rparr>))"
  have e: "players init_game = []" by (simp add: init_game_def)
  have u: "lookup (player_id (scenario_action ''P3'' ''kick'' 1)) (players ?g) = None"
    by (simp add: scenario_action_def scenario_game_def scenario_player_def lookup_def)
  have k: "MoveType_of ''kick'' = None" by (simp add: MoveType_of_def)
  have pl: "state ?g = PLAYING" by (simp add: scenario_game_def)
  have ok: "snd (process_action_list 1001 ?pre (?g\<lparr>last_update_time := Some 1001\<rparr>)) = None"
    by (simp add: process_single_action_def get_opponent_def lookup_def
        calculate_damage_def apply_damage_def move_damage_def py_int_def MoveType_of_def
        scenario_data_def scenario_game_def scenario_player_def Let_def)
  then have pre: "process_action_list 1001 ?pre (?g\<lparr>last_update_time := Some 1001\<rparr>) = (?g1, None)"
    by (simp add: prod_eq_iff)
  have act: "lookup (case ad_player_id ?bad of None \<Rightarrow> ''player1'' | Some k \<Rightarrow> k) (players ?g1)
      = Some (scenario_player ''P1'' 100 10 False False
                \<lparr>last_move := Some ''jab'', last_move_time := Some 1001\<rparr>)"
    by (simp add: process_single_action_def get_opponent_def lookup_def
        calculate_damage_def apply_damage_def move_damage_def py_int_def MoveType_of_def
        scenario_data_def scenario_game_def scenario_player_def Let_def)
  have m: "ad_move ?bad = Some ''kick''" and c: "ad_confidence ?bad = Some 1"
    by (simp_all add: scenario_data_def)
  show ?thesis
    using C5_failure_keeps_state_of_the_raise
        [of init_game 5 "scenario_action ''P3'' ''kick'' 1" 1001 "[]" ?bad 1002 1003 "[]"]
      C5_failure_keeps_state_of_the_raise
        [of ?g 5 "scenario_action ''P3'' ''kick'' 1" 1001 ?pre ?bad 1002 1003 "[]"]
      e u k pl pre act m c
    by (simp add: scenario_action_def)
qed

text \<open>
  Claim C6, as stated: a move name that equals one of the seven kinds under
  case-insensitive comparison (\<^verbatim>\<open>JAB\<close>, \<^verbatim>\<open>Jab\<close>, \<^verbatim>\<open>jab\<close>) is accepted and processed as that
  kind. The engine does not do that: \<^verbatim>\<open>JAB\<close> from a registered actor raises.
\<close>

theorem C6_uppercase_name_is_rejected:
  "spec_move_kind ''JAB'' = Some JAB
   \<and> process_single_action (scenario_action ''P1'' ''JAB'' 1)
        (scenario_game [scenario_player ''P1'' 100 0 False False,
                        scenario_player ''P2'' 100 0 False False])
       = (scenario_game [scenario_player ''P1'' 100 0 False False,
                         scenario_player ''P2'' 100 0 False False],
          Some (InvalidMoveType ''JAB''))"
  by (simp add: spec_move_kind_def spec_lower_char_def MoveType_of_def process_single_action_def
      scenario_action_def scenario_game_def scenario_player_def lookup_def)

text \<open>
  Claim C6, amended. The engine compares the move name exactly with the values of the enum,
  which are the seven lowercase names. For an event of a registered actor: the name denotes
  the kind \<open>mt\<close> exactly when it is the lowercase name of \<open>mt\<close>; the event is accepted exactly when
  its name is one of the seven lowercase names; every other name, an upper-case or
  mixed-case spelling included, raises the \<^verbatim>\<open>ValueError\<close> of the enum and changes nothing.
\<close>

theorem C6_exact_lowercase_names_only:
  assumes "lookup (player_id a) (players g) = Some p"
  shows "(MoveType_of (move_type a) = Some mt \<longleftrightarrow> move_type a = move_value mt)
       \<and> (snd (process_single_action a g) = None \<longleftrightarrow> (\<exists>k. move_type a = move_value k))
       \<and> ((\<forall>k. move_type a \<noteq> move_value k)
            \<longrightarrow> process_single_action a g = (g, Some (InvalidMoveType (move_type a))))"
proof -
  have iff: "MoveType_of s = Some k \<longleftrightarrow> s = move_value k" for s k
    by (cases k) (auto simp: MoveType_of_def move_value_def split: if_splits)
  have none: "MoveType_of s = None \<longleftrightarrow> (\<forall>k. s \<noteq> move_value k)" for s
  proof (cases "MoveType_of s")
    case None
    then show ?thesis using iff [of s] by auto
  next
    case (Some k)
    then show ?thesis using iff [of s k] by auto
  qed
  have acc: "snd (process_single_action a g) = None" if "move_type a = move_value k" for k
    using that iff [of "move_type a" k] process_single_action_valid [of a k g] by simp
  have rej: "process_single_action a g = (g, Some (InvalidMoveType (move_type a)))"
    if "\<forall>k. move_type a \<noteq> move_value k"
    using that none [of "move_type a"] assms by (simp add: process_single_action_invalid)
  have "\<exists>k. move_type a = move_value k" if "snd (process_single_action a g) = None"
  proof (rule ccontr)
    assume "\<not> (\<exists>k. move_type a = move_value k)"
    then have "process_single_action a g = (g, Some (InvalidMoveType (move_type a)))"
      using rej by simp
    then show False using that by simp
  qed
  then show ?thesis using iff acc rej by blast
qed

theorem C6_exact_lowercase_names_only_witness:
  "lookup (player_id (scenario_action ''P1'' ''jab'' 1))
     (players (scenario_game [scenario_player ''P1'' 100 0 False False,
                              scenario_player ''P2'' 100 0 False False]))
     = Some (scenario_player ''P1'' 100 0 False False)
   \<and> MoveType_of (move_type (scenario_action ''P1'' ''jab'' 1)) = Some JAB
   \<and> snd (process_single_action (scenario_action ''P1'' ''jab'' 1)
        (scenario_game [scenario_player ''P1'' 100 0 False False,
                        scenario_player ''P2'' 100 0 False False])) = None"
proof -
  let ?a = "scenario_action ''P1'' ''jab'' 1"
  let ?g = "scenario_game [scenario_player ''P1'' 100 0 False False,
                           scenario_player ''P2'' 100 0 False False]"
  have h: "lookup (player_id ?a) (players ?g) = Some (scenario_player ''P1'' 100 0 False False)"
    by (simp add: scenario_action_def scenario_game_def scenario_player_def lookup_def)
  have v: "move_type ?a = move_value JAB"
    by (simp add: scenario_action_def move_value_def)
  show ?thesis
    using C6_exact_lowercase_names_only [OF h, of JAB] h v by auto
qed

text \<open>
  Claim C7, as stated: no operation between resets, register included, ever decreases an
  existing participant's score. Registering an id that is already registered puts a fresh
  participant with score 0 in the place of the old one.
\<close>

theorem C7_reregistering_resets_score:
  "map_option score (lookup ''P1'' (players
       (scenario_game [scenario_player ''P1'' 100 9 False False,
                       scenario_player ''P2'' 91 0 False False]))) = Some 9
   \<and> map_option score (lookup ''P1'' (players (step (Register ''P1'' ''Ann'')
       (scenario_game [scenario_player ''P1'' 100 9 False False,
                       scenario_player ''P2'' 91 0 False False])))) = Some 0"
  by (simp add: add_player_def new_player_def lookup_def scenario_game_def scenario_player_def
      Let_def)

text \<open>
  Claim C7, amended. No operation other than match start, reset and the registration of an
  id that is already registered decreases the score of a participant who is registered
  before and after it: processBatch with any events (also when it raises), register with a
  fresh id, deregister, pause, resume, finish and snapshot.
\<close>

theorem C7_score_never_decreases:
  assumes "x \<noteq> Reset" and "\<forall>now. x \<noteq> Start now"
    and "\<forall>k' nm. x = Register k' nm \<longrightarrow> lookup k' (players g) = None"
    and "lookup k (players g) = Some p" and "lookup k (players (step x g)) = Some q"
  shows "score p \<le> score q"
proof (cases x)
  case (Register k' nm)
  then have "lookup k' (players g) = None" using assms(3) by simp
  then have "players (step x g) = players g @ [new_player k' nm]"
    using Register by (simp add: add_player_def Let_def)
  then have "lookup k (players (step x g)) = Some p"
    using assms(4) by (simp add: lookup_append)
  then show ?thesis using assms(5) by simp
next
  case (Deregister k')
  show ?thesis
  proof (cases "lookup k' (players g)")
    case None
    then show ?thesis using Deregister assms(4,5) by (simp add: remove_player_def)
  next
    case (Some r)
    then have "lookup k (players (step x g)) = (if k = k' then None else lookup k (players g))"
      using Deregister by (simp add: remove_player_def lookup_filter_other)
    then show ?thesis using assms(4,5) by (simp split: if_splits)
  qed
next
  case (Start now)
  then show ?thesis using assms(2) by simp
next
  case Pause
  then show ?thesis using assms(4,5) by (simp add: pause_game_def)
next
  case Resume
  then show ?thesis using assms(4,5) by (simp add: resume_game_def split: if_splits)
next
  case Finish
  then show ?thesis using assms(4,5) by (simp add: end_game_def)
next
  case (ProcessBatch t0 t1 t2 xs)
  then show ?thesis
    using all_evolve_score [OF process_actions_evolves [of g t0 t1 t2 xs] assms(4), of q] assms(5)
    by simp
next
  case Snapshot
  then show ?thesis using assms(4,5) by simp
next
  case Reset
  then show ?thesis using assms(1) by simp
qed

theorem C7_score_never_decreases_witness:
  "lookup ''P1'' (players (scenario_game [scenario_player ''P1'' 100 5 False False,
                                          scenario_player ''P2'' 100 0 False False]))
     = Some (scenario_player ''P1'' 100 5 False False)
   \<and> lookup ''P1'' (players (step (ProcessBatch 1001 1002 1003 [scenario_data ''P1'' ''jab'' 0.9])
        (scenario_game [scenario_player ''P1'' 100 5 False False,
                        scenario_player ''P2'' 100 0 False False])))
     = Some ((scenario_player ''P1'' 100 14 False False)
               \<lparr>last_move := Some ''jab'', last_move_time := Some 1001\<rparr>)
   \<and> score (scenario_player ''P1'' 100 5 False False)
       \<le> score ((scenario_player ''P1'' 100 14 False False)
               \<lparr>last_move := Some ''jab'', last_move_time := Some 1001\<rparr>)"
proof -
  let ?g = "scenario_game [scenario_player ''P1'' 100 5 False False,
                           scenario_player ''P2'' 100 0 False False]"
  let ?x = "ProcessBatch 1001 1002 1003 [scenario_data ''P1'' ''jab'' 0.9]"
  have a: "?x \<noteq> Reset" "\<forall>now. ?x \<noteq> Start now"
    "\<forall>k' nm. ?x = Register k' nm \<longrightarrow> lookup k' (players ?g) = None"
    by simp_all
  have b: "lookup ''P1'' (players ?g) = Some (scenario_player ''P1'' 100 5 False False)"
    by (simp add: lookup_def scenario_game_def scenario_player_def)
  have c: "lookup ''P1'' (players (step ?x ?g))
      = Some ((scenario_player ''P1'' 100 14 False False)
                \<lparr>last_move := Some ''jab'', last_move_time := Some 1001\<rparr>)"
    by (simp add: process_actions_def process_single_action_def get_opponent_def lookup_def
        calculate_damage_def apply_damage_def move_damage_def py_int_def MoveType_of_def
        check_game_conditions_def scenario_data_def scenario_game_def scenario_player_def Let_def)
  show ?thesis
    using C7_score_never_decreases [OF a b c] b c by (intro conjI)
qed

text \<open>
  Claim C8. On every pose array of 33 landmarks the standalone classifier, with its
  per-move thresholds, raises no \<^verbatim>\<open>KeyError\<close> and returns the same list of moves with the
  same confidences, in the same order, as the backend classifier (when ready) with its flat
  threshold 0.5. The thresholds differ only where no detector can return a value between
  them: jab and cross return 0 or more than 0.8, hook and uppercut return 0 or 0.8.
\<close>

theorem C8_classifiers_agree:
  assumes "length pose_data = 33"
  shows "detect_boxing_moves pose_data = Some (process_pose True pose_data)"
proof -
  let ?pd = pose_data
  have "sa_detect_loop [] ?pd = Some (be_detect_loop [] ?pd)"
    by simp
  then have "sa_detect_loop [(''guard'', be_detect_guard)] ?pd
      = Some (be_detect_loop [(''guard'', be_detect_guard)] ?pd)"
    by (rule detect_loop_step [OF threshold_of(7) refl])
  then have "sa_detect_loop [(''dodge'', be_detect_dodge), (''guard'', be_detect_guard)] ?pd
      = Some (be_detect_loop [(''dodge'', be_detect_dodge), (''guard'', be_detect_guard)] ?pd)"
    by (rule detect_loop_step [OF threshold_of(6) refl])
  then have "sa_detect_loop [(''block'', be_detect_block), (''dodge'', be_detect_dodge),
        (''guard'', be_detect_guard)] ?pd
      = Some (be_detect_loop [(''block'', be_detect_block), (''dodge'', be_detect_dodge),
        (''guard'', be_detect_guard)] ?pd)"
    by (rule detect_loop_step [OF threshold_of(5) refl])
  then have "sa_detect_loop [(''uppercut'', be_detect_uppercut), (''block'', be_detect_block),
        (''dodge'', be_detect_dodge), (''guard'', be_detect_guard)] ?pd
      = Some (be_detect_loop [(''uppercut'', be_detect_uppercut), (''block'', be_detect_block),
        (''dodge'', be_detect_dodge), (''guard'', be_detect_guard)] ?pd)"
    by (rule detect_loop_step [OF threshold_of(4) uppercut_threshold])
  then have "sa_detect_loop [(''hook'', be_detect_hook), (''uppercut'', be_detect_uppercut),
        (''block'', be_detect_block), (''dodge'', be_detect_dodge),
        (''guard'', be_detect_guard)] ?pd
      = Some (be_detect_loop [(''hook'', be_detect_hook), (''uppercut'', be_detect_uppercut),
        (''block'', be_detect_block), (''dodge'', be_detect_dodge),
        (''guard'', be_detect_guard)] ?pd)"
    by (rule detect_loop_step [OF threshold_of(3) hook_threshold])
  then have "sa_detect_loop [(''cross'', be_detect_cross), (''hook'', be_detect_hook),
        (''uppercut'', be_detect_uppercut), (''block'', be_detect_block),
        (''dodge'', be_detect_dodge), (''guard'', be_detect_guard)] ?pd
      = Some (be_detect_loop [(''cross'', be_detect_cross), (''hook'', be_detect_hook),
        (''uppercut'', be_detect_uppercut), (''block'', be_detect_block),
        (''dodge'', be_detect_dodge), (''guard'', be_detect_guard)] ?pd)"
    by (rule detect_loop_step [OF threshold_of(2) cross_threshold])
  then have "sa_detect_loop be_boxing_moves ?pd = Some (be_detect_loop be_boxing_moves ?pd)"
    unfolding be_boxing_moves_def
    by (rule detect_loop_step [OF threshold_of(1) jab_threshold])
  moreover have "sa_boxing_moves = be_boxing_moves"
    by (simp only: sa_boxing_moves_def be_boxing_moves_def detectors_same)
  ultimately show ?thesis
    by (simp only: detect_boxing_moves_def process_pose_def simp_thms if_False)
qed


theorem C8_classifiers_agree_witness:
  "length sample_pose_data = 33
   \<and> process_pose True sample_pose_data = [(''jab'', 1)]
   \<and> detect_boxing_moves sample_pose_data = Some [(''jab'', 1)]"
proof -
  have len: "length sample_pose_data = 33"
    by (simp add: sample_pose_data_def)
  have kp: "sample_pose_data ! kp_left_shoulder = (0.3, 0.5, 0.9)"
    "sample_pose_data ! kp_left_elbow = (0.4, 0.5, 0.9)"
    "sample_pose_data ! kp_left_wrist = (0.8, 0.5, 0.9)"
    "sample_pose_data ! kp_right_shoulder = (0, 0, 0)"
    "sample_pose_data ! kp_right_elbow = (0, 0, 0)"
    "sample_pose_data ! kp_right_wrist = (0, 0, 0)"
    "sample_pose_data ! kp_left_hip = (0, 0, 0)"
    "sample_pose_data ! kp_right_hip = (0, 0, 0)"
    by (simp_all add: sample_pose_data_def kp_left_shoulder_def kp_left_elbow_def
        kp_left_wrist_def kp_right_shoulder_def kp_right_elbow_def kp_right_wrist_def
        kp_left_hip_def kp_right_hip_def)
  have jab: "be_detect_jab sample_pose_data = 1"
    by (simp add: be_detect_jab_def kp be_calculate_arm_extension_def norm2_level
        lm_x_def lm_y_def Let_def)
  have cross: "be_detect_cross sample_pose_data = 0"
    by (simp add: be_detect_cross_def kp be_calculate_arm_extension_def norm2_level
        lm_x_def lm_y_def Let_def)
  have others: "be_detect_hook sample_pose_data = 0" "be_detect_uppercut sample_pose_data = 0"
    "be_detect_block sample_pose_data = 0" "be_detect_dodge sample_pose_data = 0"
    "be_detect_guard sample_pose_data = 0"
    by (simp_all add: be_detect_hook_def be_detect_uppercut_def be_detect_block_def
        be_detect_dodge_def be_detect_guard_def kp lm_x_def lm_y_def Let_def)
  have "process_pose True sample_pose_data = [(''jab'', 1)]"
    by (simp add: process_pose_def be_boxing_moves_def jab cross others)
  then show ?thesis
    using C8_classifiers_agree [OF len] len by simp
qed

text \<open>
  Claim C9. An action dict with the keys \<^verbatim>\<open>move\<close> and \<^verbatim>\<open>confidence\<close> and without the key
  \<^verbatim>\<open>player_id\<close> is attributed to the actor id \<^verbatim>\<open>player1\<close>: anywhere in a batch it has the
  effect of the same dict with \<^verbatim>\<open>player_id\<close> set to \<^verbatim>\<open>player1\<close>. When no participant is
  registered under \<^verbatim>\<open>player1\<close> the event is dropped without an error and without a change;
  when one is, and the move name is valid, the event is recorded as the last move of that
  participant. The missing key is never a reason to reject the event.
\<close>

theorem C9_missing_player_id_is_player1:
  assumes "ad_player_id ad = None" and "ad_move ad = Some m" and "ad_confidence ad = Some c"
  shows "process_actions t0 t1 t2 (pre @ ad # rest) g
           = process_actions t0 t1 t2 (pre @ ad\<lparr>ad_player_id := Some ''player1''\<rparr> # rest) g
       \<and> (lookup ''player1'' (players g) = None
            \<longrightarrow> process_action_list t0 [ad] g = (g, None))
       \<and> (\<forall>p mt. lookup ''player1'' (players g) = Some p \<and> MoveType_of m = Some mt
            \<longrightarrow> snd (process_action_list t0 [ad] g) = None
              \<and> (\<exists>p'. lookup ''player1'' (players (fst (process_action_list t0 [ad] g))) = Some p'
                       \<and> last_move p' = Some m))"
proof -
  let ?a = "\<lparr>player_id = ''player1'', move_type = m, confidence = c,
             timestamp = (case ad_timestamp ad of None \<Rightarrow> t0 | Some t \<Rightarrow> t)\<rparr>"
  have hd: "process_action_list t0 (ad # xs) g' =
      (case process_single_action ?a g' of
         (g'', Some e) \<Rightarrow> (g'', Some e)
       | (g'', None) \<Rightarrow> process_action_list t0 xs g'')" for xs g'
    using assms by simp
  have hd': "process_action_list t0 (ad\<lparr>ad_player_id := Some ''player1''\<rparr> # xs) g'
      = process_action_list t0 (ad # xs) g'" for xs g'
    using assms by simp
  have "process_action_list t0 (pre @ ad # rest) g'
      = process_action_list t0 (pre @ ad\<lparr>ad_player_id := Some ''player1''\<rparr> # rest) g'" for g'
    by (simp only: process_action_list_append [of t0 pre] hd')
  then have first: "process_actions t0 t1 t2 (pre @ ad # rest) g
      = process_actions t0 t1 t2 (pre @ ad\<lparr>ad_player_id := Some ''player1''\<rparr> # rest) g"
    by (simp only: process_actions_def)
  have one: "process_action_list t0 [ad] g =
      (fst (process_single_action ?a g), snd (process_single_action ?a g))"
  proof -
    have "process_action_list t0 [ad] g =
        (case process_single_action ?a g of
           (g'', Some e) \<Rightarrow> (g'', Some e)
         | (g'', None) \<Rightarrow> (g'', None))"
      by (simp only: hd process_action_list.simps(1))
    then show ?thesis by (simp split: prod.splits option.splits)
  qed
  have second: "process_action_list t0 [ad] g = (g, None)"
    if "lookup ''player1'' (players g) = None"
    unfolding one using that by (simp add: process_single_action_unknown)
  have third: "snd (process_action_list t0 [ad] g) = None
      \<and> (\<exists>p'. lookup ''player1'' (players (fst (process_action_list t0 [ad] g))) = Some p'
             \<and> last_move p' = Some m)"
    if "lookup ''player1'' (players g) = Some p" and "MoveType_of m = Some mt" for p mt
    unfolding one
    using process_single_action_actor [of ?a g p mt] process_single_action_valid [of ?a mt g] that
    by auto
  show ?thesis using first second third by blast
qed

theorem C9_missing_player_id_is_player1_witness:
  "ad_player_id \<lparr>ad_player_id = None, ad_move = Some ''block'', ad_confidence = Some 0.9,
                  ad_timestamp = None\<rparr> = None
   \<and> lookup ''player1'' (players (scenario_game [scenario_player ''P1'' 100 0 False False])) = None
   \<and> process_action_list 1001
        [\<lparr>ad_player_id = None, ad_move = Some ''block'', ad_confidence = Some 0.9,
          ad_timestamp = None\<rparr>]
        (scenario_game [scenario_player ''P1'' 100 0 False False])
       = (scenario_game [scenario_player ''P1'' 100 0 False False], None)
   \<and> lookup ''player1'' (players (scenario_game [scenario_player ''player1'' 100 0 False False]))
       = Some (scenario_player ''player1'' 100 0 False False)
   \<and> MoveType_of ''block'' = Some BLOCK
   \<and> (\<exists>p'. lookup ''player1'' (players (fst (process_action_list 1001
        [\<lparr>ad_player_id = None, ad_move = Some ''block'', ad_confidence = Some 0.9,
          ad_timestamp = None\<rparr>]
        (scenario_game [scenario_player ''player1'' 100 0 False False])))) = Some p'
        \<and> last_move p' = Some ''block'')"
proof -
  let ?ad = "\<lparr>ad_player_id = None, ad_move = Some ''block'', ad_confidence = Some 0.9,
              ad_timestamp = None\<rparr>"
  let ?g = "scenario_game [scenario_player ''P1'' 100 0 False False]"
  let ?h = "scenario_game [scenario_player ''player1'' 100 0 False False]"
  have a1: "ad_player_id ?ad = None" and a2: "ad_move ?ad = Some ''block''"
    and a3: "ad_confidence ?ad = Some 0.9"
    by simp_all
  have l1: "lookup ''player1'' (players ?g) = None"
    by (simp add: scenario_game_def scenario_player_def lookup_def)
  have l2: "lookup ''player1'' (players ?h) = Some (scenario_player ''player1'' 100 0 False False)"
    by (simp add: scenario_game_def scenario_player_def lookup_def)
  have mv: "MoveType_of ''block'' = Some BLOCK"
    by (simp add: MoveType_of_def)
  show ?thesis
    using C9_missing_player_id_is_player1 [OF a1 a2 a3, of 1001 _ _ "[]" "[]" ?g]
      C9_missing_player_id_is_player1 [OF a1 a2 a3, of 1001 _ _ "[]" "[]" ?h] l1 l2 mv
    by simp
qed

text \<open>
  Claim C10. Registering an id that is already registered does not fail and does not keep
  the participant stored under it: the call returns and stores a fresh participant (health
  100, score 0, neither blocking nor dodging, no last move) in the place of the old one.
  Every other field of the match and every participant with another id stay as they are.
\<close>

theorem C10_register_existing_id_replaces:
  assumes "lookup k (players g) = Some old"
  shows "snd (add_player k nm g)
           = \<lparr>ident = k, name = nm, health = 100, score = 0, last_move = None,
              last_move_time = None, is_blocking = False, is_dodging = False\<rparr>
       \<and> lookup k (players (fst (add_player k nm g))) = Some (snd (add_player k nm g))
       \<and> fst (add_player k nm g) = g\<lparr>players := players (fst (add_player k nm g))\<rparr>
       \<and> map ident (players (fst (add_player k nm g))) = map ident (players g)
       \<and> filter (\<lambda>p. ident p \<noteq> k) (players (fst (add_player k nm g)))
           = filter (\<lambda>p. ident p \<noteq> k) (players g)"
proof -
  let ?new = "new_player k nm"
  have id: "ident ((\<lambda>_. ?new) p) = k" for p :: Player
    by (simp add: new_player_def)
  have pl: "players (fst (add_player k nm g)) = update_player k (\<lambda>_. ?new) (players g)"
    using assms by (simp add: add_player_def Let_def)
  have "lookup k (update_player k (\<lambda>_. ?new) (players g)) = Some ?new"
    using assms id by (simp add: lookup_update_same)
  moreover have "map ident (update_player k (\<lambda>_. ?new) ps) = map ident ps" for ps
    by (induction ps) (auto simp: new_player_def)
  moreover have "filter (\<lambda>p. ident p \<noteq> k) (update_player k (\<lambda>_. ?new) ps)
      = filter (\<lambda>p. ident p \<noteq> k) ps" for ps
    by (induction ps) (auto simp: new_player_def)
  ultimately show ?thesis
    using pl by (simp add: add_player_def Let_def new_player_def)
qed

theorem C10_register_existing_id_replaces_witness:
  "lookup ''P1'' (players (scenario_game [scenario_player ''P1'' 91 9 True False,
                                          scenario_player ''P2'' 80 20 False False]))
     = Some (scenario_player ''P1'' 91 9 True False)
   \<and> snd (add_player ''P1'' ''Ann'' (scenario_game [scenario_player ''P1'' 91 9 True False,
                                          scenario_player ''P2'' 80 20 False False]))
     = \<lparr>ident = ''P1'', name = ''Ann'', health = 100, score = 0, last_move = None,
        last_move_time = None, is_blocking = False, is_dodging = False\<rparr>
   \<and> players (fst (add_player ''P1'' ''Ann'' (scenario_game [scenario_player ''P1'' 91 9 True False,
                                          scenario_player ''P2'' 80 20 False False])))
     = [\<lparr>ident = ''P1'', name = ''Ann'', health = 100, score = 0, last_move = None,
         last_move_time = None, is_blocking = False, is_dodging = False\<rparr>,
        scenario_player ''P2'' 80 20 False False]"
proof -
  let ?g = "scenario_game [scenario_player ''P1'' 91 9 True False,
                           scenario_player ''P2'' 80 20 False False]"
  have h: "lookup ''P1'' (players ?g) = Some (scenario_player ''P1'' 91 9 True False)"
    by (simp add: scenario_game_def scenario_player_def lookup_def)
  have "players (fst (add_player ''P1'' ''Ann'' ?g))
      = [snd (add_player ''P1'' ''Ann'' ?g), scenario_player ''P2'' 80 20 False False]"
    by (simp add: add_player_def Let_def scenario_game_def scenario_player_def lookup_def)
  then show ?thesis
    using C10_register_existing_id_replaces [OF h, of "''Ann''"] h by simp
qed

end
